theory Spec2Isabelle
  imports Main "HOL-Library.AList"
begin

section \<open>Version handlers of the application: list, current branch, revert, checkout\<close>

text \<open>
  The development embeds the four IPC handlers registered by
  \<^verbatim>\<open>registerVersionHandlers\<close> in \<^verbatim>\<open>src/ipc/handlers/version_handlers.ts\<close>.
  The handlers are glue between three collaborators: the application database
  (tables \<^verbatim>\<open>apps\<close> and \<^verbatim>\<open>messages\<close>), the file system and the git library.
  The collaborators are modelled by a \<open>world\<close> record and by small operations on it;
  every call of a collaborator that can throw is recorded in the world and may be made
  to fail by the environment, so that the exception paths of the handlers are branches
  of the model.
\<close>

subsection \<open>Data\<close>

type_synonym path = string
type_synonym bytes = string
type_synonym oid = string

text \<open>
  Files by path, as a list of entries in which the first entry of a path counts
  (read with \<open>map_of\<close>, written with \<open>AList.update\<close> and \<open>AList.delete\<close>): the
  tree of a commit, the index, and the regular files on disk.
\<close>

type_synonym entries = "(path \<times> bytes) list"

text \<open>A JavaScript \<^verbatim>\<open>Error\<close>: the handlers only ever read its \<^verbatim>\<open>message\<close>.\<close>

datatype error = Error (message_of: string)

text \<open>Rows of the tables \<^verbatim>\<open>apps\<close> and \<^verbatim>\<open>messages\<close> (the columns the handlers read).\<close>

record app =
  app_id :: int
  app_path :: string

record message =
  msg_id :: int
  chatId :: int
  commitHash :: "string option"

text \<open>The \<^verbatim>\<open>Version\<close> and \<^verbatim>\<open>BranchResult\<close> types of \<^verbatim>\<open>ipc_types\<close>, as the handlers build them.\<close>

record version =
  oid :: string
  message :: string
  timestamp :: int

datatype branch_result =
    BranchSuccess (branch: string)
  | BranchFailure (errorMessage: string)

text \<open>The value \<^verbatim>\<open>{ success: true }\<close> returned by revert and checkout.\<close>

record mutation_result =
  success :: bool

text \<open>
  The history store behind a working directory: the commits, the branches, what
  \<^verbatim>\<open>HEAD\<close> points to (a branch, or a commit when detached) and the index (stage).
\<close>

datatype head_ref = OnBranch string | Detached oid

record commit =
  c_oid :: oid
  c_message :: string
  c_author :: "string \<times> string"
  c_timestamp :: int
  c_parent :: "oid option"
  c_tree :: entries

record repo =
  commits :: "commit list"
  branches :: "string \<rightharpoonup> oid"
  head :: head_ref
  index :: entries

text \<open>A row of the status matrix: file path, HEAD status, working-directory status, stage status.\<close>

type_synonym status_row = "path \<times> nat \<times> nat \<times> nat"

text \<open>The calls of collaborators that can throw, with the arguments the handlers pass.\<close>

datatype call =
    FindApp int
  | GitLog path nat
  | GitCurrentBranch path
  | GitCheckout path string bool
  | GitStatusMatrix path string
  | GitReadBlob path oid path
  | FsMkdir path
  | FsWriteFile path bytes
  | FsUnlink path
  | GitRemove path path
  | GitAdd path path
  | GetGitAuthor
  | GitCommit path string
  | FindMessageByCommit string
  | FindMessagesAfter int int
  | DeleteMessagesAfter int int

text \<open>
  The world the handlers act on: the two tables, the regular files and the directories
  on disk (by full path), the history store of each working directory that has a
  readable one, the collaborator calls made so far and the lines written to the logger.
\<close>

record world =
  apps :: "app list"
  messages :: "message list"
  files :: entries
  dirs :: "path set"
  repos :: "path \<rightharpoonup> repo"
  calls :: "call list"
  logs :: "string list"

text \<open>
  The environment: what the source takes from outside this file.
  \<^item> \<open>getDyadAppPath\<close> (module \<^verbatim>\<open>paths/paths\<close>) maps the path column of an app to its directory;
  \<^item> \<open>fault\<close> says which collaborator calls throw, and with which message;
  \<^item> \<open>statusMatrix\<close> is the result of the library's status comparison;
  \<^item> \<open>gitAuthor\<close> is the result of \<^verbatim>\<open>getGitAuthor\<close> (module \<^verbatim>\<open>utils/git_author\<close>);
  \<^item> \<open>clock\<close> and \<open>mintOid\<close> give the time stamp and the identifier of a new commit.
\<close>

record env =
  getDyadAppPath :: "string \<Rightarrow> path"
  fault :: "call \<Rightarrow> string option"
  statusMatrix :: "path \<Rightarrow> string \<Rightarrow> world \<Rightarrow> status_row list"
  gitAuthor :: "string \<times> string"
  clock :: int
  mintOid :: "repo \<Rightarrow> string \<Rightarrow> oid"

subsection \<open>Exceptions and state\<close>

text \<open>
  An asynchronous function of the source is a function from the world to a result and
  the world it leaves: \<open>Inl\<close> is a thrown error, \<open>Inr\<close> a returned value. The world
  is returned in both cases, since a throw does not undo what was done before it.
\<close>

type_synonym 'a action = "world \<Rightarrow> (error + 'a) \<times> world"

definition succeed :: "'a \<Rightarrow> 'a action" where
  "succeed x w = (Inr x, w)"

definition throw :: "error \<Rightarrow> 'a action" where
  "throw e w = (Inl e, w)"

definition and_then :: "'a action \<Rightarrow> ('a \<Rightarrow> 'b action) \<Rightarrow> 'b action" where
  "and_then m k w = (case m w of (Inl e, w1) \<Rightarrow> (Inl e, w1) | (Inr x, w1) \<Rightarrow> k x w1)"

definition try_catch :: "'a action \<Rightarrow> (error \<Rightarrow> 'a action) \<Rightarrow> 'a action" where
  "try_catch m handler w = (case m w of (Inl e, w1) \<Rightarrow> handler e w1 | (Inr x, w1) \<Rightarrow> (Inr x, w1))"

text \<open>
  A call of a collaborator: the call is recorded; it throws if the environment says so,
  or if the operation itself cannot be done (then nothing but the record changes).
\<close>

definition attempt :: "env \<Rightarrow> call \<Rightarrow> (world \<Rightarrow> error + 'a \<times> world) \<Rightarrow> 'a action" where
  "attempt E c f w =
     (let w0 = w\<lparr>calls := calls w @ [c]\<rparr> in
      case fault E c of
        Some m \<Rightarrow> (Inl (Error m), w0)
      | None \<Rightarrow> (case f w0 of Inl e \<Rightarrow> (Inl e, w0) | Inr (x, w1) \<Rightarrow> (Inr x, w1)))"

subsection \<open>Paths and text\<close>

text \<open>
  \<^verbatim>\<open>path.join\<close> and \<^verbatim>\<open>path.dirname\<close> of Node, for the normalised POSIX paths the
  handlers meet: a directory without trailing slash joined with a relative path.
\<close>

definition path_join :: "path \<Rightarrow> path \<Rightarrow> path" where
  "path_join a b = a @ ''/'' @ b"

definition path_dirname :: "path \<Rightarrow> path" where
  "path_dirname p =
     (let d = rev (dropWhile (\<lambda>c. c \<noteq> CHR ''/'') (rev p)) in
      if d = [] then ''.'' else if d = ''/'' then ''/'' else butlast d)"

text \<open>The relative path of \<open>p\<close> below the directory \<open>d\<close>, if \<open>p\<close> lies below it.\<close>

definition path_below :: "path \<Rightarrow> path \<Rightarrow> path option" where
  "path_below d p =
     (if take (length d + 1) p = d @ ''/'' then Some (drop (length d + 1) p) else None)"

text \<open>The directory \<open>acc @ p\<close> and the directories above it, as \<^verbatim>\<open>mkdir\<close> with \<^verbatim>\<open>recursive\<close> visits them.\<close>

fun dir_chain :: "path \<Rightarrow> path \<Rightarrow> path list" where
  "dir_chain acc [] = (if acc = [] then [] else [acc])"
| "dir_chain acc (c # cs) =
     (if c = CHR ''/'' \<and> acc \<noteq> [] then acc # dir_chain (acc @ [c]) cs
      else dir_chain (acc @ [c]) cs)"

text \<open>Numbers inside template strings are printed in decimal.\<close>

fun show_nat :: "nat \<Rightarrow> string" where
  "show_nat n =
     (if n < 10 then [''0123456789'' ! n]
      else show_nat (n div 10) @ [''0123456789'' ! (n mod 10)])"

declare show_nat.simps [simp del]

definition show_int :: "int \<Rightarrow> string" where
  "show_int i = (if i < 0 then ''-'' @ show_nat (nat (- i)) else show_nat (nat i))"


subsection \<open>The logger\<close>

definition logger_log :: "string \<Rightarrow> unit action" where
  "logger_log line w = (Inr (), w\<lparr>logs := logs w @ [line]\<rparr>)"

definition logger_error :: "string \<Rightarrow> error \<Rightarrow> unit action" where
  "logger_error line e w = (Inr (), w\<lparr>logs := logs w @ [line @ '' '' @ message_of e]\<rparr>)"

subsection \<open>The database\<close>

text \<open>
  The queries on the tables \<^verbatim>\<open>apps\<close> and \<^verbatim>\<open>messages\<close> are collaborator calls like the
  others: they are recorded and may throw.
\<close>

text \<open>
  \<^verbatim>\<open>await db.query.apps.findFirst({ where: eq(apps.id, appId) })\<close>: the first row of the
  table with that identifier, or nothing. In each handler the query is awaited before the
  \<^verbatim>\<open>try\<close> block, so an error it throws is not caught.
\<close>

definition db_findApp :: "env \<Rightarrow> int \<Rightarrow> app option action" where
  "db_findApp E appId =
     attempt E (FindApp appId) (\<lambda>w. Inr (find (\<lambda>a. app_id a = appId) (apps w), w))"

text \<open>\<^verbatim>\<open>db.query.messages.findFirst({ where: eq(messages.commitHash, h) })\<close>.\<close>

definition db_findMessageByCommit :: "env \<Rightarrow> string \<Rightarrow> message option action" where
  "db_findMessageByCommit E h =
     attempt E (FindMessageByCommit h)
       (\<lambda>w. Inr (find (\<lambda>m. commitHash m = Some h) (messages w), w))"

text \<open>The condition \<^verbatim>\<open>and(eq(messages.chatId, c), gt(messages.id, i))\<close>.\<close>

definition in_chat_after :: "int \<Rightarrow> int \<Rightarrow> message \<Rightarrow> bool" where
  "in_chat_after c i m \<longleftrightarrow> chatId m = c \<and> msg_id m > i"

text \<open>\<^verbatim>\<open>findMany\<close> with that condition, ordered by \<^verbatim>\<open>desc(messages.id)\<close>.\<close>

definition db_findMessagesAfter :: "env \<Rightarrow> int \<Rightarrow> int \<Rightarrow> message list action" where
  "db_findMessagesAfter E c i =
     attempt E (FindMessagesAfter c i)
       (\<lambda>w. Inr (rev (sort_key msg_id (filter (in_chat_after c i) (messages w))), w))"

text \<open>\<^verbatim>\<open>db.delete(messages).where(...)\<close> with that condition.\<close>

definition db_deleteMessagesAfter :: "env \<Rightarrow> int \<Rightarrow> int \<Rightarrow> unit action" where
  "db_deleteMessagesAfter E c i =
     attempt E (DeleteMessagesAfter c i)
       (\<lambda>w. Inr ((), w\<lparr>messages := filter (\<lambda>m. \<not> in_chat_after c i m) (messages w)\<rparr>))"

subsection \<open>The file system\<close>

text \<open>
  The calls of \<^verbatim>\<open>node:fs\<close> the handlers make. \<^verbatim>\<open>existsSync\<close> is true of a regular file and
  of a directory, and never throws.
\<close>

definition fs_existsSync :: "world \<Rightarrow> path \<Rightarrow> bool" where
  "fs_existsSync w p \<longleftrightarrow> map_of (files w) p \<noteq> None \<or> p \<in> dirs w"

text \<open>\<^verbatim>\<open>mkdir(d, { recursive: true })\<close>: fails when a regular file is in the way.\<close>

definition fs_mkdir :: "env \<Rightarrow> path \<Rightarrow> unit action" where
  "fs_mkdir E d =
     attempt E (FsMkdir d)
       (\<lambda>w. if \<exists>a \<in> set (dir_chain [] d). map_of (files w) a \<noteq> None
            then Inl (Error (''EEXIST: file already exists, mkdir '' @ d))
            else Inr ((), w\<lparr>dirs := dirs w \<union> set (dir_chain [] d)\<rparr>))"

text \<open>\<^verbatim>\<open>writeFile(p, data)\<close>: creates or replaces the regular file \<open>p\<close>.\<close>

definition fs_writeFile :: "env \<Rightarrow> path \<Rightarrow> bytes \<Rightarrow> unit action" where
  "fs_writeFile E p b =
     attempt E (FsWriteFile p b)
       (\<lambda>w. if p \<in> dirs w
            then Inl (Error (''EISDIR: illegal operation on a directory, open '' @ p))
            else Inr ((), w\<lparr>files := AList.update p b (files w)\<rparr>))"

text \<open>\<^verbatim>\<open>unlink(p)\<close>: removes the regular file \<open>p\<close>.\<close>

definition fs_unlink :: "env \<Rightarrow> path \<Rightarrow> unit action" where
  "fs_unlink E p =
     attempt E (FsUnlink p)
       (\<lambda>w. if map_of (files w) p = None
            then Inl (Error (''ENOENT: no such file or directory, unlink '' @ p))
            else Inr ((), w\<lparr>files := AList.delete p (files w)\<rparr>))"

subsection \<open>The git library\<close>

text \<open>
  The operations of the library the handlers call, on the history store of the directory
  \<open>dir\<close>. The library is not part of the repository: each operation is given the
  effect its documentation describes, as far as the handlers depend on it, and each fails
  when the directory has no readable store.
\<close>

definition no_repo :: "path \<Rightarrow> error" where
  "no_repo dir = Error (''Could not find git repository in '' @ dir)"

definition find_commit :: "repo \<Rightarrow> oid \<Rightarrow> commit option" where
  "find_commit r x = find (\<lambda>c. c_oid c = x) (commits r)"

definition head_oid :: "repo \<Rightarrow> oid option" where
  "head_oid r = (case head r of OnBranch b \<Rightarrow> branches r b | Detached x \<Rightarrow> Some x)"

text \<open>
  A reference is the name of a branch or else the full identifier of a commit, forty
  hexadecimal digits.
\<close>

definition is_oid :: "string \<Rightarrow> bool" where
  "is_oid s \<longleftrightarrow> length s = 40 \<and> list_all (\<lambda>c. c \<in> set ''0123456789abcdef'') s"

definition resolve_ref :: "repo \<Rightarrow> string \<Rightarrow> (head_ref \<times> commit) option" where
  "resolve_ref r ref =
     (case branches r ref of
        Some x \<Rightarrow> map_option (\<lambda>c. (OnBranch ref, c)) (find_commit r x)
      | None \<Rightarrow> if is_oid ref then map_option (\<lambda>c. (Detached ref, c)) (find_commit r ref)
                else None)"

text \<open>\<^verbatim>\<open>git.log\<close>: the commits reachable from \<open>x\<close> through the parents, at most \<open>depth\<close> of them.\<close>

fun log_walk :: "nat \<Rightarrow> repo \<Rightarrow> oid option \<Rightarrow> error + commit list" where
  "log_walk depth r None = Inr []"
| "log_walk depth r (Some x) =
     (if depth = 0 then Inr []
      else case find_commit r x of
             None \<Rightarrow> Inl (Error (''Could not find '' @ x))
           | Some c \<Rightarrow>
               (case log_walk (depth - 1) r (c_parent c) of
                  Inl e \<Rightarrow> Inl e
                | Inr cs \<Rightarrow> Inr (c # cs)))"

declare log_walk.simps [simp del]

definition git_log :: "env \<Rightarrow> path \<Rightarrow> nat \<Rightarrow> commit list action" where
  "git_log E dir depth =
     attempt E (GitLog dir depth)
       (\<lambda>w. case repos w dir of
               None \<Rightarrow> Inl (no_repo dir)
             | Some r \<Rightarrow>
                 (case head_oid r of
                    None \<Rightarrow> Inl (Error ''Could not find HEAD'')
                  | Some x \<Rightarrow>
                      (case log_walk depth r (Some x) of
                         Inl e \<Rightarrow> Inl e
                       | Inr cs \<Rightarrow> Inr (cs, w))))"

text \<open>\<^verbatim>\<open>git.currentBranch\<close>: the branch name, or nothing (\<^verbatim>\<open>undefined\<close>) when \<^verbatim>\<open>HEAD\<close> is detached.\<close>

definition git_currentBranch :: "env \<Rightarrow> path \<Rightarrow> string option action" where
  "git_currentBranch E dir =
     attempt E (GitCurrentBranch dir)
       (\<lambda>w. case repos w dir of
               None \<Rightarrow> Inl (no_repo dir)
             | Some r \<Rightarrow>
                 (case head r of
                    OnBranch b \<Rightarrow> Inr (Some b, w)
                  | Detached x \<Rightarrow> Inr (None, w)))"

text \<open>
  The working files after a forced checkout of a tree: below \<open>dir\<close>, a path of the tree
  gets the tree's content, a path that was tracked and is not in the tree is removed,
  and an untracked path is left alone.
\<close>

definition checkout_files :: "path \<Rightarrow> entries \<Rightarrow> entries \<Rightarrow> entries \<Rightarrow> entries" where
  "checkout_files dir old_index tree fs =
     map (\<lambda>(q, b). (path_join dir q, b)) tree @
     filter (\<lambda>(p, b). case path_below dir p of
                         None \<Rightarrow> True
                       | Some q \<Rightarrow> map_of tree q = None \<and> map_of old_index q = None) fs"

definition checkout_dirs :: "path \<Rightarrow> entries \<Rightarrow> path set" where
  "checkout_dirs dir tree =
     (\<Union>(q, b) \<in> set tree. set (dir_chain [] (path_dirname (path_join dir q))))"

text \<open>\<^verbatim>\<open>git.checkout\<close> with \<^verbatim>\<open>force: true\<close>, the only way the handlers call it.\<close>

definition git_checkout :: "env \<Rightarrow> path \<Rightarrow> string \<Rightarrow> unit action" where
  "git_checkout E dir ref =
     attempt E (GitCheckout dir ref True)
       (\<lambda>w. case repos w dir of
               None \<Rightarrow> Inl (no_repo dir)
             | Some r \<Rightarrow>
                 (case resolve_ref r ref of
                    None \<Rightarrow> Inl (Error (''Could not find '' @ ref))
                  | Some (h, c) \<Rightarrow>
                      Inr ((), w\<lparr>files := checkout_files dir (index r) (c_tree c) (files w),
                                 dirs := dirs w \<union> checkout_dirs dir (c_tree c),
                                 repos := (repos w)(dir \<mapsto> r\<lparr>head := h, index := c_tree c\<rparr>)\<rparr>)))"

text \<open>
  \<^verbatim>\<open>git.statusMatrix\<close>: the rows are those the environment gives for the world at the
  moment of the call.
\<close>

definition git_statusMatrix :: "env \<Rightarrow> path \<Rightarrow> string \<Rightarrow> status_row list action" where
  "git_statusMatrix E dir ref =
     attempt E (GitStatusMatrix dir ref)
       (\<lambda>w. case repos w dir of
               None \<Rightarrow> Inl (no_repo dir)
             | Some r \<Rightarrow>
                 (case resolve_ref r ref of
                    None \<Rightarrow> Inl (Error (''Could not find '' @ ref))
                  | Some hc \<Rightarrow> Inr (statusMatrix E dir ref w, w)))"

text \<open>\<^verbatim>\<open>git.readBlob\<close>: the content of \<open>filepath\<close> in the tree of the commit \<open>x\<close>.\<close>

definition git_readBlob :: "env \<Rightarrow> path \<Rightarrow> oid \<Rightarrow> path \<Rightarrow> bytes action" where
  "git_readBlob E dir x filepath =
     attempt E (GitReadBlob dir x filepath)
       (\<lambda>w. case repos w dir of
               None \<Rightarrow> Inl (no_repo dir)
             | Some r \<Rightarrow>
                 (case find_commit r x of
                    None \<Rightarrow> Inl (Error (''Could not find '' @ x))
                  | Some c \<Rightarrow>
                      (case map_of (c_tree c) filepath of
                         None \<Rightarrow> Inl (Error (''Could not find file or directory '' @ filepath))
                       | Some b \<Rightarrow> Inr (b, w))))"

text \<open>\<^verbatim>\<open>git.remove\<close>: removes \<open>filepath\<close> from the index; the working files are not touched.\<close>

definition git_remove :: "env \<Rightarrow> path \<Rightarrow> path \<Rightarrow> unit action" where
  "git_remove E dir filepath =
     attempt E (GitRemove dir filepath)
       (\<lambda>w. case repos w dir of
               None \<Rightarrow> Inl (no_repo dir)
             | Some r \<Rightarrow>
                 Inr ((), w\<lparr>repos := (repos w)(dir \<mapsto> r\<lparr>index := AList.delete filepath (index r)\<rparr>)\<rparr>))"

text \<open>
  \<^verbatim>\<open>git.add\<close>: the working files at or below \<open>filepath\<close> (all of them for \<^verbatim>\<open>"."\<close>) are
  written to the index; an entry whose file is gone stays.
\<close>

definition add_selects :: "path \<Rightarrow> path \<Rightarrow> bool" where
  "add_selects filepath q \<longleftrightarrow> filepath = ''.'' \<or> q = filepath \<or> path_below filepath q \<noteq> None"

definition staged :: "path \<Rightarrow> path \<Rightarrow> entries \<Rightarrow> entries" where
  "staged dir filepath fs =
     concat (map (\<lambda>(p, b). case path_below dir p of
                               None \<Rightarrow> []
                             | Some q \<Rightarrow> if add_selects filepath q then [(q, b)] else []) fs)"

definition git_add :: "env \<Rightarrow> path \<Rightarrow> path \<Rightarrow> unit action" where
  "git_add E dir filepath =
     attempt E (GitAdd dir filepath)
       (\<lambda>w. case repos w dir of
               None \<Rightarrow> Inl (no_repo dir)
             | Some r \<Rightarrow>
                 Inr ((), w\<lparr>repos := (repos w)(dir \<mapsto>
                            r\<lparr>index := AList.merge (index r) (staged dir filepath (files w))\<rparr>)\<rparr>))"

definition getGitAuthor :: "env \<Rightarrow> (string \<times> string) action" where
  "getGitAuthor E = attempt E GetGitAuthor (\<lambda>w. Inr (gitAuthor E, w))"

text \<open>
  The message of a commit as the library stores it: without carriage returns, without
  newlines at the start, and with exactly one newline at the end.
\<close>

definition normalizeNewlines :: "string \<Rightarrow> string" where
  "normalizeNewlines str =
     (let s1 = filter (\<lambda>c. c \<noteq> CHR 0x0D) str;
          s2 = dropWhile (\<lambda>c. c = CHR 0x0A) s1;
          s3 = rev (dropWhile (\<lambda>c. c = CHR 0x0A) (rev s2))
      in s3 @ [CHR 0x0A])"

text \<open>
  \<^verbatim>\<open>git.commit\<close>: a new commit of the index, on top of the current one; the branch
  \<^verbatim>\<open>HEAD\<close> is on moves to it, and a detached \<^verbatim>\<open>HEAD\<close> stays detached.
\<close>

definition new_commit :: "env \<Rightarrow> repo \<Rightarrow> string \<Rightarrow> string \<times> string \<Rightarrow> commit" where
  "new_commit E r msg author =
     \<lparr>c_oid = mintOid E r msg, c_message = normalizeNewlines msg, c_author = author,
      c_timestamp = clock E, c_parent = head_oid r, c_tree = index r\<rparr>"

definition commit_on_head :: "repo \<Rightarrow> commit \<Rightarrow> repo" where
  "commit_on_head r c =
     (case head r of
        OnBranch b \<Rightarrow> r\<lparr>commits := c # commits r, branches := (branches r)(b \<mapsto> c_oid c)\<rparr>
      | Detached y \<Rightarrow> r\<lparr>commits := c # commits r, head := Detached (c_oid c)\<rparr>)"

definition git_commit :: "env \<Rightarrow> path \<Rightarrow> string \<Rightarrow> string \<times> string \<Rightarrow> oid action" where
  "git_commit E dir msg author =
     attempt E (GitCommit dir msg)
       (\<lambda>w. case repos w dir of
               None \<Rightarrow> Inl (no_repo dir)
             | Some r \<Rightarrow>
                 (let c = new_commit E r msg author
                  in Inr (c_oid c, w\<lparr>repos := (repos w)(dir \<mapsto> commit_on_head r c)\<rparr>)))"

subsection \<open>The lock\<close>

text \<open>
  Modelled from the spec: \<^verbatim>\<open>withLock\<close> of \<^verbatim>\<open>utils/lock_utils\<close> is not among the sources.
  The spec (4.5) has it acquire the lock of the identifier, run the body and release the
  lock on every exit path. With one request at a time, which is all this sequential
  model describes, that is the body itself.
\<close>

definition withLock :: "int \<Rightarrow> 'a action \<Rightarrow> 'a action" where
  "withLock lockId fn = fn"

subsection \<open>Handler \<^verbatim>\<open>list-versions\<close>\<close>

definition to_version :: "commit \<Rightarrow> version" where
  "to_version c = \<lparr>oid = c_oid c, message = c_message c, timestamp = c_timestamp c\<rparr>"

definition list_versions :: "env \<Rightarrow> int \<Rightarrow> version list action" where
  "list_versions E appId =
     and_then (db_findApp E appId) (\<lambda>app.
       case app of
         None \<Rightarrow> throw (Error ''App not found'')
       | Some app \<Rightarrow>
           (let appPath = getDyadAppPath E (app_path app) in
            (\<lambda>w. if \<not> fs_existsSync w (path_join appPath ''.git'') then succeed [] w
                 else try_catch
                        (and_then (git_log E appPath 10000)
                           (\<lambda>commits. succeed (map to_version commits)))
                        (\<lambda>error.
                           and_then (logger_error (''Error listing versions for app ''
                                       @ show_int appId @ '':'') error)
                             (\<lambda>_. throw (Error (''Failed to list versions: ''
                                               @ message_of error))))
                        w)))"

subsection \<open>Handler \<^verbatim>\<open>get-current-branch\<close>\<close>

text \<open>\<^verbatim>\<open>currentBranch || "<no-branch>"\<close>: \<^verbatim>\<open>undefined\<close> and the empty string are falsy.\<close>

definition branch_or_sentinel :: "string option \<Rightarrow> string" where
  "branch_or_sentinel currentBranch =
     (case currentBranch of
        None \<Rightarrow> ''<no-branch>''
      | Some b \<Rightarrow> if b = [] then ''<no-branch>'' else b)"

definition get_current_branch :: "env \<Rightarrow> int \<Rightarrow> branch_result action" where
  "get_current_branch E appId =
     and_then (db_findApp E appId) (\<lambda>app.
       case app of
         None \<Rightarrow> succeed (BranchFailure ''App not found'')
       | Some app \<Rightarrow>
           (let appPath = getDyadAppPath E (app_path app) in
            (\<lambda>w. if \<not> fs_existsSync w (path_join appPath ''.git'')
                 then succeed (BranchFailure ''Not a git repository'') w
                 else try_catch
                        (and_then (git_currentBranch E appPath)
                           (\<lambda>currentBranch.
                              succeed (BranchSuccess (branch_or_sentinel currentBranch))))
                        (\<lambda>error.
                           and_then (logger_error (''Error getting current branch for app ''
                                       @ show_int appId @ '':'') error)
                             (\<lambda>_. succeed (BranchFailure (''Failed to get current branch: ''
                                                 @ message_of error))))
                        w)))"

subsection \<open>Handler \<^verbatim>\<open>revert-version\<close>\<close>

text \<open>The body of the loop over the status matrix.\<close>

fun restore_row :: "env \<Rightarrow> path \<Rightarrow> string \<Rightarrow> status_row \<Rightarrow> unit action" where
  "restore_row E appPath previousVersionId (filepath, headStatus, workdirStatus, stageStatus) =
     (let fullPath = path_join appPath filepath in
      if headStatus = 1 then
        (if workdirStatus \<noteq> 1 then
           and_then (git_readBlob E appPath previousVersionId filepath) (\<lambda>blob.
           and_then (fs_mkdir E (path_dirname fullPath)) (\<lambda>_.
           fs_writeFile E fullPath blob))
         else succeed ())
      else if headStatus = 0 \<and> workdirStatus \<noteq> 0 then
        (\<lambda>w. if fs_existsSync w fullPath
             then and_then (fs_unlink E fullPath) (\<lambda>_. git_remove E appPath filepath) w
             else succeed () w)
      else succeed ())"

fun restore_rows :: "env \<Rightarrow> path \<Rightarrow> string \<Rightarrow> status_row list \<Rightarrow> unit action" where
  "restore_rows E appPath previousVersionId [] = succeed ()"
| "restore_rows E appPath previousVersionId (row # matrix) =
     and_then (restore_row E appPath previousVersionId row)
       (\<lambda>_. restore_rows E appPath previousVersionId matrix)"

text \<open>The deletion of the messages after the one that carries the commit hash.\<close>

definition prune_messages :: "env \<Rightarrow> string \<Rightarrow> unit action" where
  "prune_messages E previousVersionId =
     and_then (db_findMessageByCommit E previousVersionId) (\<lambda>messageWithCommit.
       case messageWithCommit of
         None \<Rightarrow> succeed ()
       | Some m \<Rightarrow>
           and_then (db_findMessagesAfter E (chatId m) (msg_id m)) (\<lambda>messagesToDelete.
           and_then (logger_log (''Deleting '' @ show_nat (length messagesToDelete)
                       @ '' messages after commit '' @ previousVersionId
                       @ '' from chat '' @ show_int (chatId m))) (\<lambda>_.
           if length messagesToDelete > 0
           then db_deleteMessagesAfter E (chatId m) (msg_id m)
           else succeed ())))"

text \<open>The \<^verbatim>\<open>try\<close> block: checkout of main, status matrix, loop, add, commit, prune.\<close>

definition revert_steps :: "env \<Rightarrow> path \<Rightarrow> string \<Rightarrow> mutation_result action" where
  "revert_steps E appPath previousVersionId =
     and_then (git_checkout E appPath ''main'') (\<lambda>_.
     and_then (git_statusMatrix E appPath previousVersionId) (\<lambda>matrix.
     and_then (restore_rows E appPath previousVersionId matrix) (\<lambda>_.
     and_then (git_add E appPath ''.'') (\<lambda>_.
     and_then (getGitAuthor E) (\<lambda>author.
     and_then (git_commit E appPath
                 (''Reverted all changes back to version '' @ previousVersionId) author) (\<lambda>_.
     and_then (prune_messages E previousVersionId) (\<lambda>_.
     succeed \<lparr>success = True\<rparr>)))))))"

definition revert_version :: "env \<Rightarrow> int \<Rightarrow> string \<Rightarrow> mutation_result action" where
  "revert_version E appId previousVersionId =
     withLock appId
       (and_then (db_findApp E appId) (\<lambda>app.
          case app of
            None \<Rightarrow> throw (Error ''App not found'')
          | Some app \<Rightarrow>
              (let appPath = getDyadAppPath E (app_path app) in
               try_catch (revert_steps E appPath previousVersionId)
                 (\<lambda>error.
                    and_then (logger_error (''Error reverting to version '' @ previousVersionId
                                @ '' for app '' @ show_int appId @ '':'') error)
                      (\<lambda>_. throw (Error (''Failed to revert version: ''
                                        @ message_of error)))))))"


subsection \<open>Handler \<^verbatim>\<open>checkout-version\<close>\<close>

definition checkout_version :: "env \<Rightarrow> int \<Rightarrow> string \<Rightarrow> mutation_result action" where
  "checkout_version E appId versionId =
     withLock appId
       (and_then (db_findApp E appId) (\<lambda>app.
          case app of
            None \<Rightarrow> throw (Error ''App not found'')
          | Some app \<Rightarrow>
              (let appPath = getDyadAppPath E (app_path app) in
               try_catch
                 (and_then (git_checkout E appPath versionId) (\<lambda>_. succeed \<lparr>success = True\<rparr>))
                 (\<lambda>error.
                    and_then (logger_error (''Error checking out version '' @ versionId
                                @ '' for app '' @ show_int appId @ '':'') error)
                      (\<lambda>_. throw (Error (''Failed to checkout version: ''
                                        @ message_of error)))))))"

subsection \<open>Observations on a world\<close>

text \<open>The part of a history store that only a checkout or a commit changes.\<close>

definition history :: "world \<Rightarrow> path \<Rightarrow> (commit list \<times> (string \<rightharpoonup> oid) \<times> head_ref) option" where
  "history w d = map_option (\<lambda>r. (commits r, branches r, head r)) (repos w d)"

text \<open>The content of the path \<open>q\<close> in the snapshot \<open>t\<close> of the store of \<open>d\<close>, if it has one.\<close>

definition snapshot_blob :: "world \<Rightarrow> path \<Rightarrow> oid \<Rightarrow> path \<Rightarrow> bytes option" where
  "snapshot_blob w d t q =
     (case repos w d of
        None \<Rightarrow> None
      | Some r \<Rightarrow> (case find_commit r t of None \<Rightarrow> None | Some c \<Rightarrow> map_of (c_tree c) q))"

text \<open>The content staged for the path \<open>q\<close> in the store of \<open>d\<close>, if any.\<close>

definition staged_at :: "world \<Rightarrow> path \<Rightarrow> path \<Rightarrow> bytes option" where
  "staged_at w d q = (case repos w d of None \<Rightarrow> None | Some r \<Rightarrow> map_of (index r) q)"

text \<open>An action that leaves the calls made before it in place and only adds calls after them.\<close>

definition only_appends :: "'a action \<Rightarrow> bool" where
  "only_appends m \<longleftrightarrow> (\<forall>w r w'. m w = (r, w') \<longrightarrow> (\<exists>cs. calls w' = calls w @ cs))"

text \<open>
  The messages that a revert to \<open>t\<close> keeps, and the line it logs: the message found for
  \<open>t\<close> is the first one of the table that carries it.
\<close>

definition kept_messages :: "string \<Rightarrow> message list \<Rightarrow> message list" where
  "kept_messages t ms =
     (case find (\<lambda>m. commitHash m = Some t) ms of
        None \<Rightarrow> ms
      | Some m0 \<Rightarrow> filter (\<lambda>m. \<not> in_chat_after (chatId m0) (msg_id m0) m) ms)"

definition prune_log :: "string \<Rightarrow> message list \<Rightarrow> string list" where
  "prune_log t ms =
     (case find (\<lambda>m. commitHash m = Some t) ms of
        None \<Rightarrow> []
      | Some m0 \<Rightarrow>
          [''Deleting '' @ show_nat (length ms - length (kept_messages t ms))
             @ '' messages after commit '' @ t @ '' from chat '' @ show_int (chatId m0)])"

subsection \<open>A project to run the handlers on\<close>

text \<open>
  Three apps: \<^verbatim>\<open>demo\<close> has a history of two commits on the branch main; \<^verbatim>\<open>fresh\<close> has no
  \<^verbatim>\<open>.git\<close> directory; \<^verbatim>\<open>broken\<close> has a \<^verbatim>\<open>.git\<close> directory that the library cannot read.
  Chat 7 has the messages 1 to 5, and message 3 carries the first commit.
\<close>

definition oid1 :: oid where
  "oid1 = ''9fceb02d0ae598e95dc970b74767f19372d61af8''"

definition oid2 :: oid where
  "oid2 = ''a1b2c3d4e5f60718293a4b5c6d7e8f9012345678''"

definition oid3 :: oid where
  "oid3 = ''e4f5a6b7c8d9e0f1a2b3c4d5e6f708192a3b4c5d''"

definition demo_c1 :: commit where
  "demo_c1 = \<lparr>c_oid = oid1, c_message = ''Init'', c_author = (''dyad'', ''git@dyad.sh''),
              c_timestamp = 1700000000, c_parent = None,
              c_tree = [(''a.txt'', ''old a''), (''src/b.txt'', ''b'')]\<rparr>"

definition demo_c2 :: commit where
  "demo_c2 = \<lparr>c_oid = oid2, c_message = ''Edit'', c_author = (''dyad'', ''git@dyad.sh''),
              c_timestamp = 1700000300, c_parent = Some oid1,
              c_tree = [(''a.txt'', ''new a''), (''extra.txt'', ''x'')]\<rparr>"

definition demo_repo :: repo where
  "demo_repo = \<lparr>commits = [demo_c2, demo_c1], branches = [''main'' \<mapsto> oid2],
                head = OnBranch ''main'',
                index = [(''a.txt'', ''new a''), (''extra.txt'', ''x'')]\<rparr>"

definition demo_messages :: "message list" where
  "demo_messages =
     [\<lparr>msg_id = 1, chatId = 7, commitHash = None\<rparr>,
      \<lparr>msg_id = 2, chatId = 7, commitHash = None\<rparr>,
      \<lparr>msg_id = 3, chatId = 7, commitHash = Some oid1\<rparr>,
      \<lparr>msg_id = 4, chatId = 7, commitHash = None\<rparr>,
      \<lparr>msg_id = 5, chatId = 7, commitHash = None\<rparr>,
      \<lparr>msg_id = 6, chatId = 8, commitHash = None\<rparr>]"

definition demo_world :: world where
  "demo_world =
     \<lparr>apps = [\<lparr>app_id = 1, app_path = ''demo''\<rparr>, \<lparr>app_id = 2, app_path = ''fresh''\<rparr>,
              \<lparr>app_id = 3, app_path = ''broken''\<rparr>],
      messages = demo_messages,
      files = [(''/apps/demo/a.txt'', ''draft''), (''/apps/demo/extra.txt'', ''x'')],
      dirs = {''/apps'', ''/apps/demo'', ''/apps/demo/.git'', ''/apps/fresh'',
              ''/apps/broken'', ''/apps/broken/.git''},
      repos = [''/apps/demo'' \<mapsto> demo_repo],
      calls = [],
      logs = []\<rparr>"

definition detached_world :: world where
  "detached_world =
     demo_world\<lparr>repos := [''/apps/demo'' \<mapsto> demo_repo\<lparr>head := Detached oid1\<rparr>]\<rparr>"

text \<open>
  The status matrix of the working directory against the first commit, once main is
  checked out, and against any other reference (nothing differs from the second commit).
\<close>

definition demo_matrix :: "status_row list" where
  "demo_matrix = [(''a.txt'', 1, 2, 2), (''extra.txt'', 0, 2, 2), (''src/b.txt'', 1, 0, 0)]"

definition demo_env :: env where
  "demo_env =
     \<lparr>getDyadAppPath = (\<lambda>p. ''/apps/'' @ p),
      fault = (\<lambda>c. None),
      statusMatrix = (\<lambda>dir ref w. if ref = oid1 then demo_matrix
                                   else [(''a.txt'', 1, 1, 1), (''extra.txt'', 1, 1, 1)]),
      gitAuthor = (''dyad'', ''git@dyad.sh''),
      clock = 1700000600,
      mintOid = (\<lambda>r msg. oid3)\<rparr>"

text \<open>The same environment, where the lookup of app 1 throws.\<close>

definition lookup_failing_env :: env where
  "lookup_failing_env =
     demo_env\<lparr>fault := (\<lambda>c. if c = FindApp 1 then Some ''database is locked'' else None)\<rparr>"


section \<open>Properties\<close>

subsection \<open>Results of sequencing\<close>

lemma attempt_Inr:
  "attempt E c f w = (Inr x, w') \<longleftrightarrow>
     fault E c = None \<and> f (w\<lparr>calls := calls w @ [c]\<rparr>) = Inr (x, w')"
  by (auto simp: attempt_def Let_def split: option.splits sum.splits)

lemma attempt_Inl:
  "attempt E c f w = (Inl e, w') \<Longrightarrow> w' = w\<lparr>calls := calls w @ [c]\<rparr>"
  by (auto simp: attempt_def Let_def split: option.splits sum.splits)

lemma and_then_Inr:
  "and_then m k w = (Inr y, w') \<longleftrightarrow> (\<exists>x w1. m w = (Inr x, w1) \<and> k x w1 = (Inr y, w'))"
  by (auto simp: and_then_def split: prod.splits sum.splits)

lemma and_then_Inl:
  "and_then m k w = (Inl e, w') \<longleftrightarrow>
     m w = (Inl e, w') \<or> (\<exists>x w1. m w = (Inr x, w1) \<and> k x w1 = (Inl e, w'))"
  by (auto simp: and_then_def split: prod.splits sum.splits)

lemma succeed_eq: "succeed x w = (r, w') \<longleftrightarrow> r = Inr x \<and> w' = w"
  by (auto simp: succeed_def)

subsection \<open>Paths\<close>

lemma path_below_join: "path_below d p = Some q \<longleftrightarrow> p = path_join d q"
proof
  assume "path_below d p = Some q"
  then have t: "take (length d + 1) p = d @ ''/''" and q: "q = drop (length d + 1) p"
    by (auto simp: path_below_def split: if_splits)
  have "p = take (length d + 1) p @ drop (length d + 1) p" by simp
  with t q show "p = path_join d q" by (simp add: path_join_def)
next
  assume "p = path_join d q"
  then show "path_below d p = Some q" by (simp add: path_below_def path_join_def)
qed

lemma path_join_inject: "path_join d q = path_join d q' \<longleftrightarrow> q = q'"
  by (simp add: path_join_def)

lemma path_join_image:
  "path_join d q \<in> (\<lambda>row. path_join d (fst row)) ` S \<longleftrightarrow> q \<in> fst ` S"
proof
  assume "path_join d q \<in> (\<lambda>row. path_join d (fst row)) ` S"
  then obtain row where r: "row \<in> S" and "path_join d q = path_join d (fst row)"
    by (rule imageE)
  then have "q = fst row" by (simp add: path_join_inject)
  with r show "q \<in> fst ` S" by simp
next
  assume "q \<in> fst ` S"
  then obtain row where r: "row \<in> S" and "q = fst row" by (rule imageE)
  then have "path_join d q = path_join d (fst row)" by simp
  with r show "path_join d q \<in> (\<lambda>row. path_join d (fst row)) ` S" by blast
qed

lemma dir_chain_self: "acc @ p \<noteq> [] \<Longrightarrow> acc @ p \<in> set (dir_chain acc p)"
proof (induction p arbitrary: acc)
  case Nil
  then show ?case by simp
next
  case (Cons c cs)
  have "(acc @ [c]) @ cs \<in> set (dir_chain (acc @ [c]) cs)"
    by (rule Cons.IH) simp
  then show ?case by auto
qed

lemma path_dirname_nonempty: "path_dirname p \<noteq> []"
proof -
  define d where "d = rev (dropWhile (\<lambda>c. c \<noteq> CHR ''/'') (rev p))"
  show ?thesis
  proof (cases "d = [] \<or> d = ''/''")
    case True
    then show ?thesis by (auto simp: path_dirname_def Let_def d_def[symmetric])
  next
    case False
    then have ne: "dropWhile (\<lambda>c. c \<noteq> CHR ''/'') (rev p) \<noteq> []" by (simp add: d_def)
    from hd_dropWhile [OF ne] have "hd (rev d) = CHR ''/''" by (simp add: d_def)
    with False have "last d = CHR ''/''" by (simp add: hd_rev)
    with False have "butlast d \<noteq> []" by (cases d rule: rev_cases) auto
    with False show ?thesis by (auto simp: path_dirname_def Let_def d_def[symmetric])
  qed
qed

lemma path_dirname_in_chain: "path_dirname p \<in> set (dir_chain [] (path_dirname p))"
  using dir_chain_self [of "[]" "path_dirname p"] path_dirname_nonempty [of p] by simp

subsection \<open>Entries\<close>

lemma map_of_staged:
  "map_of (staged d fp fs) q = (if add_selects fp q then map_of fs (path_join d q) else None)"
proof (induction fs)
  case Nil
  then show ?case by (simp add: staged_def)
next
  case (Cons e fs)
  obtain p b where e: "e = (p, b)" by (cases e)
  have st: "staged d fp (e # fs) =
      (case path_below d p of None \<Rightarrow> [] | Some q' \<Rightarrow> if add_selects fp q' then [(q', b)] else [])
        @ staged d fp fs"
    by (simp add: staged_def e)
  show ?case
  proof (cases "path_below d p")
    case None
    then have "p \<noteq> path_join d q" using path_below_join [of d p q] by auto
    with None Cons st e show ?thesis by simp
  next
    case (Some q')
    then have p: "p = path_join d q'" by (simp add: path_below_join)
    show ?thesis using Some Cons st e p by (auto simp: path_join_inject)
  qed
qed

lemma map_of_rekeyed:
  "map_of (map (\<lambda>(q, b). (path_join d q, b)) tree) (path_join d q) = map_of tree q"
  by (induction tree) (auto simp: path_join_inject)

lemma map_of_checkout_files:
  assumes "map_of tree q = Some b"
  shows "map_of (checkout_files d old_index tree fs) (path_join d q) = Some b"
  using assms by (simp add: checkout_files_def map_of_rekeyed)

subsection \<open>What each collaborator call leaves\<close>

lemmas collaborator_defs =
  git_log_def git_currentBranch_def git_checkout_def git_statusMatrix_def git_readBlob_def
  git_remove_def git_add_def getGitAuthor_def git_commit_def fs_mkdir_def fs_writeFile_def
  fs_unlink_def db_findApp_def db_findMessageByCommit_def db_findMessagesAfter_def
  db_deleteMessagesAfter_def

lemma restore_row_frame:
  assumes "restore_row E d t row w = (res, w')"
  shows "messages w' = messages w \<and> apps w' = apps w \<and> logs w' = logs w
       \<and> dirs w \<subseteq> dirs w'
       \<and> (\<forall>d'. history w' d' = history w d')
       \<and> (\<forall>p. p \<noteq> path_join d (fst row) \<longrightarrow> map_of (files w') p = map_of (files w) p)
       \<and> (\<forall>r' q. repos w' d = Some r' \<and> map_of (index r') q \<noteq> None \<longrightarrow>
             (\<exists>r. repos w d = Some r \<and> map_of (index r) q \<noteq> None))"
proof -
  obtain q h wd st where row: "row = (q, h, wd, st)" by (cases row)
  show ?thesis
    using assms unfolding row
    by (auto simp: collaborator_defs attempt_def and_then_def succeed_def Let_def history_def
        AList.update_conv' AList.delete_conv'
        split: if_splits option.splits sum.splits prod.splits)
qed

lemma snapshot_blob_history:
  "history w' d = history w d \<Longrightarrow> snapshot_blob w' d t q = snapshot_blob w d t q"
  by (auto simp: history_def snapshot_blob_def find_commit_def split: option.splits)

lemma restore_row_effect:
  assumes "restore_row E d t (q, h, wd, st) w = (Inr u, w')"
  shows "(h = 1 \<and> wd \<noteq> 1 \<longrightarrow>
            snapshot_blob w d t q \<noteq> None
          \<and> map_of (files w') (path_join d q) = snapshot_blob w d t q
          \<and> path_dirname (path_join d q) \<in> dirs w')
       \<and> (h = 0 \<and> wd \<noteq> 0 \<and> map_of (files w) (path_join d q) \<noteq> None \<longrightarrow>
            map_of (files w') (path_join d q) = None
          \<and> repos w' d \<noteq> None \<and> staged_at w' d q = None)"
  using assms path_dirname_in_chain [of "path_join d q"]
  by (auto simp: collaborator_defs attempt_def and_then_def succeed_def Let_def
      snapshot_blob_def staged_at_def fs_existsSync_def
      AList.update_conv' AList.delete_conv'
      split: if_splits option.splits sum.splits prod.splits)

lemma restore_rows_frame:
  assumes "restore_rows E d t rows w = (res, w')"
  shows "messages w' = messages w \<and> apps w' = apps w \<and> logs w' = logs w
       \<and> dirs w \<subseteq> dirs w'
       \<and> (\<forall>d'. history w' d' = history w d')
       \<and> (\<forall>p. p \<notin> (\<lambda>row. path_join d (fst row)) ` set rows \<longrightarrow>
             map_of (files w') p = map_of (files w) p)
       \<and> (\<forall>q. staged_at w' d q \<noteq> None \<longrightarrow> staged_at w d q \<noteq> None)"
  using assms
proof (induction rows arbitrary: w res w')
  case Nil
  then show ?case by (simp add: succeed_def)
next
  case (Cons row rows)
  show ?case
  proof (cases "restore_row E d t row w")
    case (Pair r1 w1)
    note f1 = restore_row_frame [OF Pair]
    have idx1: "\<forall>q. staged_at w1 d q \<noteq> None \<longrightarrow> staged_at w d q \<noteq> None"
      using f1 by (auto simp: staged_at_def split: option.splits)
    show ?thesis
    proof (cases r1)
      case (Inl e)
      with Pair Cons.prems have "w' = w1" by (simp add: and_then_def)
      with f1 idx1 show ?thesis by auto
    next
      case (Inr u)
      with Pair Cons.prems have "restore_rows E d t rows w1 = (res, w')"
        by (simp add: and_then_def)
      note f2 = Cons.IH [OF this]
      show ?thesis using f1 f2 idx1 by auto
    qed
  qed
qed

lemma restore_rows_effect:
  assumes "restore_rows E d t rows w = (Inr u, w')"
      and "distinct (map fst rows)"
      and "(q, h, wd, st) \<in> set rows"
  shows "(h = 1 \<and> wd \<noteq> 1 \<longrightarrow>
            snapshot_blob w d t q \<noteq> None
          \<and> map_of (files w') (path_join d q) = snapshot_blob w d t q
          \<and> path_dirname (path_join d q) \<in> dirs w')
       \<and> (h = 0 \<and> wd \<noteq> 0 \<and> map_of (files w) (path_join d q) \<noteq> None \<longrightarrow>
            map_of (files w') (path_join d q) = None
          \<and> repos w' d \<noteq> None \<and> staged_at w' d q = None)"
  using assms
proof (induction rows arbitrary: w)
  case Nil
  then show ?case by simp
next
  case (Cons row rows)
  from Cons.prems(1) obtain u1 w1 where
    s1: "restore_row E d t row w = (Inr u1, w1)" and
    s2: "restore_rows E d t rows w1 = (Inr u, w')"
    by (auto simp: and_then_Inr)
  note f1 = restore_row_frame [OF s1]
  note f2 = restore_rows_frame [OF s2]
  show ?case
  proof (cases "row = (q, h, wd, st)")
    case True
    from Cons.prems(2) True have "q \<notin> fst ` set rows" by auto
    then have keep: "path_join d q \<notin> (\<lambda>row. path_join d (fst row)) ` set rows"
      by (simp add: path_join_image)
    note e1 = restore_row_effect [OF s1 [unfolded True]]
    have "history w' d = history w1 d"
      by (rule f2 [THEN conjunct2, THEN conjunct2, THEN conjunct2, THEN conjunct2,
            THEN conjunct1, THEN spec])
    then have rep: "repos w1 d \<noteq> None \<Longrightarrow> repos w' d \<noteq> None"
      by (auto simp: history_def)
    note c2 = f2 [THEN conjunct2, THEN conjunct2, THEN conjunct2]
    have dr: "dirs w1 \<subseteq> dirs w'" by (rule c2 [THEN conjunct1])
    have "path_join d q \<notin> (\<lambda>row. path_join d (fst row)) ` set rows \<longrightarrow>
            map_of (files w') (path_join d q) = map_of (files w1) (path_join d q)"
      by (rule c2 [THEN conjunct2, THEN conjunct2, THEN conjunct1, THEN spec])
    with keep have fl: "map_of (files w') (path_join d q) = map_of (files w1) (path_join d q)"
      by simp
    have "staged_at w' d q \<noteq> None \<longrightarrow> staged_at w1 d q \<noteq> None"
      by (rule c2 [THEN conjunct2, THEN conjunct2, THEN conjunct2, THEN spec])
    then have ix: "staged_at w1 d q = None \<Longrightarrow> staged_at w' d q = None" by simp
    show ?thesis
    proof (intro conjI impI)
      assume a: "h = 1 \<and> wd \<noteq> 1"
      note x = e1 [THEN conjunct1, THEN mp, OF a]
      note b = x [THEN conjunct1]
      note c = x [THEN conjunct2, THEN conjunct1]
      note e = x [THEN conjunct2, THEN conjunct2]
      show "snapshot_blob w d t q \<noteq> None" by (rule b)
      show "map_of (files w') (path_join d q) = snapshot_blob w d t q"
        by (rule trans [OF fl c])
      show "path_dirname (path_join d q) \<in> dirs w'" by (rule subsetD [OF dr e])
    next
      assume a: "h = 0 \<and> wd \<noteq> 0 \<and> map_of (files w) (path_join d q) \<noteq> None"
      note x = e1 [THEN conjunct2, THEN mp, OF a]
      note b = x [THEN conjunct1]
      note c = x [THEN conjunct2, THEN conjunct1]
      note e = x [THEN conjunct2, THEN conjunct2]
      show "map_of (files w') (path_join d q) = None" by (rule trans [OF fl b])
      show "repos w' d \<noteq> None" by (rule rep [OF c])
      show "staged_at w' d q = None" by (rule ix [OF e])
    qed
  next
    case False
    from Cons.prems(3) have "(q, h, wd, st) = row \<or> (q, h, wd, st) \<in> set rows"
      by (simp only: list.set insert_iff)
    with False have mem: "(q, h, wd, st) \<in> set rows" by blast
    have "q = fst (q, h, wd, st)" by simp
    then have qin: "q \<in> fst ` set rows" using mem by (rule image_eqI)
    from Cons.prems(2) have "fst row \<notin> fst ` set rows" by simp
    with qin have "fst row \<noteq> q" by blast
    then have other: "path_join d q \<noteq> path_join d (fst row)"
      by (simp add: path_join_inject)
    from Cons.prems(2) have dist: "distinct (map fst rows)" by simp
    note ih = Cons.IH [OF s2 dist mem]
    note c1 = f1 [THEN conjunct2, THEN conjunct2, THEN conjunct2, THEN conjunct2]
    have "history w1 d = history w d" by (rule c1 [THEN conjunct1, THEN spec])
    then have sb: "snapshot_blob w1 d t q = snapshot_blob w d t q"
      by (rule snapshot_blob_history)
    have "path_join d q \<noteq> path_join d (fst row) \<longrightarrow>
            map_of (files w1) (path_join d q) = map_of (files w) (path_join d q)"
      by (rule c1 [THEN conjunct2, THEN conjunct1, THEN spec])
    with other have fl: "map_of (files w1) (path_join d q) = map_of (files w) (path_join d q)"
      by blast
    show ?thesis by (rule ih [unfolded sb fl])
  qed
qed

subsection \<open>The steps of a revert\<close>

lemma git_checkout_Inr:
  assumes "git_checkout E d ref w = (Inr u, w')"
  shows "\<exists>r h c. repos w d = Some r \<and> resolve_ref r ref = Some (h, c) \<and>
           w' = w\<lparr>calls := calls w @ [GitCheckout d ref True],
                  files := checkout_files d (index r) (c_tree c) (files w),
                  dirs := dirs w \<union> checkout_dirs d (c_tree c),
                  repos := (repos w)(d \<mapsto> r\<lparr>head := h, index := c_tree c\<rparr>)\<rparr>"
  using assms
  by (auto simp: git_checkout_def attempt_def Let_def split: option.splits sum.splits)

lemma git_checkout_Inl:
  assumes "git_checkout E d ref w = (Inl e, w')"
  shows "w' = w\<lparr>calls := calls w @ [GitCheckout d ref True]\<rparr>"
  using assms unfolding git_checkout_def by (rule attempt_Inl)

lemma git_statusMatrix_Inr:
  assumes "git_statusMatrix E d ref w = (Inr m, w')"
  shows "w' = w\<lparr>calls := calls w @ [GitStatusMatrix d ref]\<rparr>"
  using assms
  by (auto simp: git_statusMatrix_def attempt_def Let_def split: option.splits sum.splits)

lemma git_add_Inr:
  assumes "git_add E d fp w = (Inr u, w')"
  shows "\<exists>r. repos w d = Some r \<and>
           w' = w\<lparr>calls := calls w @ [GitAdd d fp],
                  repos := (repos w)(d \<mapsto>
                    r\<lparr>index := AList.merge (index r) (staged d fp (files w))\<rparr>)\<rparr>"
  using assms
  by (auto simp: git_add_def attempt_def Let_def split: option.splits sum.splits)

lemma getGitAuthor_Inr:
  assumes "getGitAuthor E w = (Inr a, w')"
  shows "w' = w\<lparr>calls := calls w @ [GetGitAuthor]\<rparr>"
  using assms
  by (auto simp: getGitAuthor_def attempt_def Let_def split: option.splits sum.splits)

lemma git_commit_Inr:
  assumes "git_commit E d msg a w = (Inr x, w')"
  shows "\<exists>r. repos w d = Some r \<and> x = c_oid (new_commit E r msg a)
           \<and> w' = w\<lparr>calls := calls w @ [GitCommit d msg],
                    repos := (repos w)(d \<mapsto> commit_on_head r (new_commit E r msg a))\<rparr>"
  using assms
  by (auto simp: git_commit_def attempt_def Let_def split: option.splits sum.splits)

lemma length_filter_compl:
  "length (filter P xs) = length xs - length (filter (\<lambda>x. \<not> P x) xs)"
  using sum_length_filter_compl [of P xs] by simp

lemma sort_key_Nil_iff: "sort_key f xs = [] \<longleftrightarrow> xs = []"
  using length_sort [of f xs] by (metis length_0_conv)

lemma prune_messages_Inr:
  assumes "prune_messages E t w = (Inr u, w')"
  shows "messages w' = kept_messages t (messages w)
       \<and> logs w' = logs w @ prune_log t (messages w)
       \<and> files w' = files w \<and> dirs w' = dirs w \<and> repos w' = repos w \<and> apps w' = apps w"
proof (cases "find (\<lambda>m. commitHash m = Some t) (messages w)")
  case None
  with assms show ?thesis
    by (auto simp: prune_messages_def db_findMessageByCommit_def attempt_def Let_def
        and_then_def succeed_def kept_messages_def prune_log_def
        split: option.splits sum.splits prod.splits)
next
  case (Some m0)
  have len: "length (filter (in_chat_after (chatId m0) (msg_id m0)) (messages w))
      = length (messages w)
        - length (filter (\<lambda>m. \<not> in_chat_after (chatId m0) (msg_id m0) m) (messages w))"
    by (rule length_filter_compl)
  have none: "filter (in_chat_after (chatId m0) (msg_id m0)) (messages w) = [] \<Longrightarrow>
      filter (\<lambda>m. \<not> in_chat_after (chatId m0) (msg_id m0) m) (messages w) = messages w"
    by (auto simp: filter_empty_conv filter_id_conv)
  from assms Some show ?thesis
    by (auto simp: prune_messages_def db_findMessageByCommit_def db_findMessagesAfter_def
        db_deleteMessagesAfter_def logger_log_def attempt_def Let_def
        and_then_def succeed_def kept_messages_def prune_log_def len none sort_key_Nil_iff
        split: option.splits sum.splits prod.splits if_splits)
qed

lemma revert_steps_Inr:
  assumes "revert_steps E d t w = (Inr ok, w')"
  shows "\<exists>w1 matrix w2 w3 w4 a w5 x w6.
           git_checkout E d ''main'' w = (Inr (), w1)
         \<and> git_statusMatrix E d t w1 = (Inr matrix, w2)
         \<and> restore_rows E d t matrix w2 = (Inr (), w3)
         \<and> git_add E d ''.'' w3 = (Inr (), w4)
         \<and> getGitAuthor E w4 = (Inr a, w5)
         \<and> git_commit E d (''Reverted all changes back to version '' @ t) a w5 = (Inr x, w6)
         \<and> prune_messages E t w6 = (Inr (), w')
         \<and> ok = \<lparr>success = True\<rparr>"
  using assms unfolding revert_steps_def and_then_Inr succeed_eq by fastforce

lemma db_findApp_result:
  assumes "db_findApp E appId w = (r, w0)"
  shows "w0 = w\<lparr>calls := calls w @ [FindApp appId]\<rparr>
       \<and> (case fault E (FindApp appId) of
            Some m \<Rightarrow> r = Inl (Error m)
          | None \<Rightarrow> r = Inr (find (\<lambda>a. app_id a = appId) (apps w)))"
  using assms
  by (auto simp: db_findApp_def attempt_def Let_def split: option.splits)

lemma db_findApp_frame:
  assumes "db_findApp E appId w = (r, w0)"
  shows "apps w0 = apps w" "messages w0 = messages w" "files w0 = files w" "dirs w0 = dirs w"
        "repos w0 = repos w" "logs w0 = logs w" "calls w0 = calls w @ [FindApp appId]"
  using db_findApp_result [OF assms] by simp_all

lemma revert_version_known:
  assumes "db_findApp E appId w = (Inr (Some app), w0)"
  shows "revert_version E appId t w =
           (case revert_steps E (getDyadAppPath E (app_path app)) t w0 of
              (Inr ok, w1) \<Rightarrow> (Inr ok, w1)
            | (Inl cause, w1) \<Rightarrow>
                (Inl (Error (''Failed to revert version: '' @ message_of cause)),
                 w1\<lparr>logs := logs w1 @
                    [''Error reverting to version '' @ t @ '' for app '' @ show_int appId
                       @ '': '' @ message_of cause]\<rparr>))"
  using assms
  by (simp add: revert_version_def withLock_def Let_def try_catch_def throw_def and_then_def
      logger_error_def split: option.splits sum.splits prod.splits)

lemma revert_version_unknown:
  assumes "db_findApp E appId w = (Inr None, w0)"
  shows "revert_version E appId t w = (Inl (Error ''App not found''), w0)"
  using assms by (simp add: revert_version_def withLock_def throw_def and_then_def)

lemma revert_version_lookup_fails:
  assumes "db_findApp E appId w = (Inl cause, w0)"
  shows "revert_version E appId t w = (Inl cause, w0)"
  using assms by (simp add: revert_version_def withLock_def and_then_def)

lemma revert_version_Inr:
  assumes "revert_version E appId t w = (Inr ok, w')"
  shows "\<exists>app w0. db_findApp E appId w = (Inr (Some app), w0)
           \<and> revert_steps E (getDyadAppPath E (app_path app)) t w0 = (Inr ok, w')"
proof -
  obtain r w0 where l: "db_findApp E appId w = (r, w0)" by (cases "db_findApp E appId w")
  show ?thesis
  proof (cases r)
    case (Inl cause)
    with l assms show ?thesis by (simp add: revert_version_lookup_fails)
  next
    case (Inr found)
    show ?thesis
    proof (cases found)
      case None
      with l Inr assms show ?thesis by (simp add: revert_version_unknown)
    next
      case (Some app)
      with l Inr have k: "db_findApp E appId w = (Inr (Some app), w0)" by simp
      from assms have "revert_steps E (getDyadAppPath E (app_path app)) t w0 = (Inr ok, w')"
        unfolding revert_version_known [OF k] by (auto split: prod.splits sum.splits)
      with k show ?thesis by blast
    qed
  qed
qed

subsection \<open>A successful revert, step by step\<close>

lemma staged_at_add:
  assumes "git_add E d ''.'' w = (Inr u, w')"
  shows "staged_at w' d q =
           (case map_of (files w) (path_join d q) of Some b \<Rightarrow> Some b | None \<Rightarrow> staged_at w d q)"
proof -
  from git_add_Inr [OF assms] obtain r where r: "repos w d = Some r"
    and w': "w' = w\<lparr>calls := calls w @ [GitAdd d ''.''],
                  repos := (repos w)(d \<mapsto>
                    r\<lparr>index := AList.merge (index r) (staged d ''.'' (files w))\<rparr>)\<rparr>"
    by blast
  have "map_of (AList.merge (index r) (staged d ''.'' (files w))) q
      = (map_of (index r) ++ map_of (staged d ''.'' (files w))) q"
    by (simp add: AList.merge_conv')
  also have "\<dots> = (case map_of (files w) (path_join d q) of
                      Some b \<Rightarrow> Some b | None \<Rightarrow> map_of (index r) q)"
    by (simp add: map_add_def map_of_staged add_selects_def split: option.splits)
  finally have m: "map_of (AList.merge (index r) (staged d ''.'' (files w))) q
      = (case map_of (files w) (path_join d q) of
           Some b \<Rightarrow> Some b | None \<Rightarrow> map_of (index r) q)" .
  have lhs: "staged_at w' d q = map_of (AList.merge (index r) (staged d ''.'' (files w))) q"
    using w' by (simp add: staged_at_def)
  have rhs: "staged_at w d q = map_of (index r) q"
    using r by (simp add: staged_at_def)
  show ?thesis by (simp only: lhs rhs m)
qed

lemma git_add_frame:
  assumes "git_add E d fp w = (Inr u, w')"
  shows "files w' = files w \<and> dirs w' = dirs w \<and> messages w' = messages w \<and> logs w' = logs w
       \<and> apps w' = apps w \<and> history w' = history w"
proof -
  from git_add_Inr [OF assms] obtain r where r: "repos w d = Some r"
    and w': "w' = w\<lparr>calls := calls w @ [GitAdd d fp],
                  repos := (repos w)(d \<mapsto>
                    r\<lparr>index := AList.merge (index r) (staged d fp (files w))\<rparr>)\<rparr>"
    by blast
  have "history w' = history w"
    using r w' by (auto simp: history_def fun_eq_iff)
  with w' show ?thesis by simp
qed

lemma git_commit_frame:
  assumes "git_commit E d msg a w = (Inr x, w')"
  shows "files w' = files w \<and> dirs w' = dirs w \<and> messages w' = messages w \<and> logs w' = logs w
       \<and> apps w' = apps w \<and> staged_at w' d = staged_at w d"
proof -
  from git_commit_Inr [OF assms] obtain r where r: "repos w d = Some r"
    and w': "w' = w\<lparr>calls := calls w @ [GitCommit d msg],
                    repos := (repos w)(d \<mapsto> commit_on_head r (new_commit E r msg a))\<rparr>"
    by blast
  have "index (commit_on_head r (new_commit E r msg a)) = index r"
    by (simp add: commit_on_head_def split: head_ref.splits)
  then have "staged_at w' d = staged_at w d"
    using r w' by (simp add: staged_at_def fun_eq_iff)
  with w' show ?thesis by simp
qed

lemma git_checkout_frame:
  assumes "git_checkout E d ref w = (res, w')"
  shows "messages w' = messages w \<and> logs w' = logs w \<and> apps w' = apps w
       \<and> (\<forall>d'. map_option commits (repos w' d') = map_option commits (repos w d'))
       \<and> (\<forall>d'. map_option branches (repos w' d') = map_option branches (repos w d'))"
  using assms
  by (auto simp: git_checkout_def attempt_def Let_def split: option.splits sum.splits)

lemma revert_steps_effects:
  assumes "revert_steps E d t w = (Inr ok, w')"
  shows "\<exists>w1 matrix w2 w3.
           git_checkout E d ''main'' w = (Inr (), w1)
         \<and> git_statusMatrix E d t w1 = (Inr matrix, w2)
         \<and> files w2 = files w1
         \<and> restore_rows E d t matrix w2 = (Inr (), w3)
         \<and> files w' = files w3 \<and> dirs w' = dirs w3
         \<and> (\<forall>q. staged_at w' d q =
                (case map_of (files w3) (path_join d q) of
                   Some b \<Rightarrow> Some b | None \<Rightarrow> staged_at w3 d q))
         \<and> (\<forall>q. snapshot_blob w2 d t q = snapshot_blob w d t q)
         \<and> messages w' = kept_messages t (messages w)
         \<and> logs w' = logs w @ prune_log t (messages w)
         \<and> ok = \<lparr>success = True\<rparr>"
proof -
  from revert_steps_Inr [OF assms] obtain w1 matrix w2 w3 w4 a w5 x w6 where
    s1: "git_checkout E d ''main'' w = (Inr (), w1)" and
    s2: "git_statusMatrix E d t w1 = (Inr matrix, w2)" and
    s3: "restore_rows E d t matrix w2 = (Inr (), w3)" and
    s4: "git_add E d ''.'' w3 = (Inr (), w4)" and
    s5: "getGitAuthor E w4 = (Inr a, w5)" and
    s6: "git_commit E d (''Reverted all changes back to version '' @ t) a w5 = (Inr x, w6)" and
    s7: "prune_messages E t w6 = (Inr (), w')" and
    ok: "ok = \<lparr>success = True\<rparr>"
    by blast
  note f1 = git_checkout_frame [OF s1]
  note e2 = git_statusMatrix_Inr [OF s2]
  note f3 = restore_rows_frame [OF s3]
  note f4 = git_add_frame [OF s4]
  note e5 = getGitAuthor_Inr [OF s5]
  note f6 = git_commit_frame [OF s6]
  note f7 = prune_messages_Inr [OF s7]
  have m: "messages w6 = messages w"
    using f1 e2 f3 f4 e5 f6 by simp
  have l: "logs w6 = logs w"
    using f1 e2 f3 f4 e5 f6 by simp
  have fl: "files w' = files w3" using f7 f6 e5 f4 by simp
  have dr: "dirs w' = dirs w3" using f7 f6 e5 f4 by simp
  have st: "staged_at w' d q = staged_at w4 d q" for q
  proof -
    have "staged_at w' d q = staged_at w6 d q" using f7 by (simp add: staged_at_def)
    also have "\<dots> = staged_at w5 d q" using f6 by simp
    also have "\<dots> = staged_at w4 d q" using e5 by (simp add: staged_at_def)
    finally show ?thesis .
  qed
  have sb: "snapshot_blob w2 d t q = snapshot_blob w d t q" for q
  proof -
    have "map_option commits (repos w1 d) = map_option commits (repos w d)"
      by (rule f1 [THEN conjunct2, THEN conjunct2, THEN conjunct2, THEN conjunct1, THEN spec])
    then have "snapshot_blob w1 d t q = snapshot_blob w d t q"
      by (auto simp: snapshot_blob_def find_commit_def split: option.splits)
    moreover have "snapshot_blob w2 d t q = snapshot_blob w1 d t q"
      using e2 by (simp add: snapshot_blob_def)
    ultimately show ?thesis by simp
  qed
  have "files w2 = files w1" using e2 by simp
  moreover have "\<forall>q. staged_at w' d q =
                (case map_of (files w3) (path_join d q) of
                   Some b \<Rightarrow> Some b | None \<Rightarrow> staged_at w3 d q)"
    using st staged_at_add [OF s4] by simp
  moreover have "messages w' = kept_messages t (messages w)" using f7 m by simp
  moreover have "logs w' = logs w @ prune_log t (messages w)" using f7 m l by simp
  ultimately show ?thesis using s1 s2 s3 fl dr sb ok by blast
qed

subsection \<open>The order of the calls\<close>

lemma only_appendsD:
  "only_appends m \<Longrightarrow> m w = (r, w') \<Longrightarrow> \<exists>cs. calls w' = calls w @ cs"
  by (auto simp: only_appends_def)

lemma only_appends_succeed: "only_appends (succeed x)"
  by (simp add: only_appends_def succeed_def)

lemma only_appends_throw: "only_appends (throw e)"
  by (simp add: only_appends_def throw_def)

lemma only_appends_and_then:
  assumes "only_appends m" and "\<And>x. only_appends (k x)"
  shows "only_appends (and_then m k)"
  unfolding only_appends_def
proof (intro allI impI)
  fix w r w'
  assume a: "and_then m k w = (r, w')"
  obtain r1 w1 where m: "m w = (r1, w1)" by (cases "m w")
  from only_appendsD [OF assms(1) m] obtain cs1 where c1: "calls w1 = calls w @ cs1" by blast
  show "\<exists>cs. calls w' = calls w @ cs"
  proof (cases r1)
    case (Inl e)
    with a m have "w' = w1" by (simp add: and_then_def)
    with c1 show ?thesis by blast
  next
    case (Inr x)
    with a m have "k x w1 = (r, w')" by (simp add: and_then_def)
    from only_appendsD [OF assms(2) this] obtain cs2 where "calls w' = calls w1 @ cs2" by blast
    with c1 have "calls w' = calls w @ (cs1 @ cs2)" by simp
    then show ?thesis by blast
  qed
qed

lemma only_appends_attempt:
  assumes "\<And>w0 x w1. f w0 = Inr (x, w1) \<Longrightarrow> calls w1 = calls w0"
  shows "only_appends (attempt E c f)"
  unfolding only_appends_def
proof (intro allI impI)
  fix w r w'
  assume a: "attempt E c f w = (r, w')"
  have "calls w' = calls w @ [c]"
  proof (cases r)
    case (Inl e)
    with a have "w' = w\<lparr>calls := calls w @ [c]\<rparr>" by (simp add: attempt_Inl)
    then show ?thesis by simp
  next
    case (Inr x)
    with a have "f (w\<lparr>calls := calls w @ [c]\<rparr>) = Inr (x, w')" by (simp add: attempt_Inr)
    from assms [OF this] show ?thesis by simp
  qed
  then show "\<exists>cs. calls w' = calls w @ cs" by blast
qed

lemma only_appends_logger_log: "only_appends (logger_log line)"
  by (simp add: only_appends_def logger_log_def)

lemma only_appends_logger_error: "only_appends (logger_error line e)"
  by (simp add: only_appends_def logger_error_def)

lemma only_appends_collaborators:
  "only_appends (git_statusMatrix E d ref)"
  "only_appends (git_readBlob E d x q)"
  "only_appends (git_remove E d q)"
  "only_appends (git_add E d fp)"
  "only_appends (getGitAuthor E)"
  "only_appends (git_commit E d msg a)"
  "only_appends (fs_mkdir E p)"
  "only_appends (fs_writeFile E p b)"
  "only_appends (fs_unlink E p)"
  "only_appends (db_findApp E appId)"
  "only_appends (db_findMessageByCommit E h)"
  "only_appends (db_findMessagesAfter E c i)"
  "only_appends (db_deleteMessagesAfter E c i)"
  unfolding collaborator_defs
  by (rule only_appends_attempt; auto simp: Let_def split: option.splits if_splits sum.splits)+

lemma only_appends_restore_row: "only_appends (restore_row E d t row)"
proof -
  obtain q h wd st where row: "row = (q, h, wd, st)" by (cases row)
  have del: "only_appends (\<lambda>w. if fs_existsSync w (path_join d q)
             then and_then (fs_unlink E (path_join d q)) (\<lambda>_. git_remove E d q) w
             else succeed () w)"
    unfolding only_appends_def
  proof (intro allI impI)
    fix w r w'
    assume a: "(if fs_existsSync w (path_join d q)
             then and_then (fs_unlink E (path_join d q)) (\<lambda>_. git_remove E d q) w
             else succeed () w) = (r, w')"
    have 1: "only_appends (and_then (fs_unlink E (path_join d q)) (\<lambda>_. git_remove E d q))"
      by (intro only_appends_and_then only_appends_collaborators)
    show "\<exists>cs. calls w' = calls w @ cs"
    proof (cases "fs_existsSync w (path_join d q)")
      case True
      with a show ?thesis using only_appendsD [OF 1] by simp
    next
      case False
      with a show ?thesis using only_appendsD [OF only_appends_succeed] by simp
    qed
  qed
  show ?thesis
    unfolding row restore_row.simps Let_def
    by (simp add: del only_appends_succeed only_appends_and_then only_appends_collaborators)
qed

lemma only_appends_restore_rows: "only_appends (restore_rows E d t rows)"
  by (induction rows)
     (simp_all add: only_appends_succeed only_appends_and_then only_appends_restore_row)

lemma only_appends_prune_messages: "only_appends (prune_messages E t)"
  unfolding prune_messages_def
  by (intro only_appends_and_then only_appends_collaborators)
     (auto intro!: only_appends_and_then only_appends_collaborators only_appends_succeed
        only_appends_logger_log split: option.splits)

lemma git_checkout_calls:
  assumes "git_checkout E d ref w = (r, w')"
  shows "calls w' = calls w @ [GitCheckout d ref True]"
proof (cases r)
  case (Inl e)
  with assms have "w' = w\<lparr>calls := calls w @ [GitCheckout d ref True]\<rparr>"
    by (simp add: git_checkout_Inl)
  then show ?thesis by simp
next
  case (Inr u)
  with assms git_checkout_Inr [of E d ref w u w'] show ?thesis by auto
qed

lemma and_then_cases:
  assumes "and_then m k w = (r, w')"
  obtains (fails) e where "m w = (Inl e, w')" and "r = Inl e"
        | (goes_on) x w1 where "m w = (Inr x, w1)" and "k x w1 = (r, w')"
  using assms by (auto simp: and_then_def split: prod.splits sum.splits)

lemma and_then_first_call:
  assumes "\<And>r1 w1. m w = (r1, w1) \<Longrightarrow> calls w1 = calls w @ [c]"
      and "\<And>x. only_appends (k x)"
      and "and_then m k w = (r, w')"
  shows "\<exists>rest. calls w' = calls w @ c # rest"
  using assms(3)
proof (cases rule: and_then_cases)
  case (fails e)
  from assms(1) [OF fails(1)] show ?thesis by simp
next
  case (goes_on x w1)
  from only_appendsD [OF assms(2) goes_on(2)] obtain cs where "calls w' = calls w1 @ cs"
    by blast
  with assms(1) [OF goes_on(1)] show ?thesis by simp
qed

lemma revert_steps_calls:
  assumes "revert_steps E d t w = (r, w')"
  shows "\<exists>rest. calls w' = calls w @ GitCheckout d ''main'' True # rest"
proof (rule and_then_first_call [OF _ _ assms [unfolded revert_steps_def]])
  fix r1 w1
  assume "git_checkout E d ''main'' w = (r1, w1)"
  then show "calls w1 = calls w @ [GitCheckout d ''main'' True]"
    by (rule git_checkout_calls)
next
  fix x :: unit
  show "only_appends
          (and_then (git_statusMatrix E d t) (\<lambda>matrix.
           and_then (restore_rows E d t matrix) (\<lambda>_.
           and_then (git_add E d ''.'') (\<lambda>_.
           and_then (getGitAuthor E) (\<lambda>author.
           and_then (git_commit E d
                       (''Reverted all changes back to version '' @ t) author) (\<lambda>_.
           and_then (prune_messages E t) (\<lambda>_.
           succeed \<lparr>success = True\<rparr>)))))))"
    by (intro only_appends_and_then only_appends_collaborators only_appends_restore_rows
          only_appends_prune_messages only_appends_succeed)
qed

lemma revert_steps_checkout_fails:
  assumes "git_checkout E d ''main'' w = (Inl cause, w1)"
  shows "revert_steps E d t w = (Inl cause, w\<lparr>calls := calls w @ [GitCheckout d ''main'' True]\<rparr>)"
  using assms git_checkout_Inl [OF assms] by (simp add: revert_steps_def and_then_def)

lemma is_oid_main: "\<not> is_oid ''main''"
  by (simp add: is_oid_def)

lemma revert_steps_history:
  assumes "revert_steps E d t w = (Inr ok, w')"
  shows "\<exists>r r' c. repos w d = Some r \<and> repos w' d = Some r'
           \<and> head r' = OnBranch ''main''
           \<and> commits r' = c # commits r
           \<and> branches r' = (branches r)(''main'' \<mapsto> c_oid c)
           \<and> c_parent c = branches r ''main''
           \<and> c_message c = normalizeNewlines (''Reverted all changes back to version '' @ t)"
proof -
  from revert_steps_Inr [OF assms] obtain w1 matrix w2 w3 w4 a w5 x w6 where
    s1: "git_checkout E d ''main'' w = (Inr (), w1)" and
    s2: "git_statusMatrix E d t w1 = (Inr matrix, w2)" and
    s3: "restore_rows E d t matrix w2 = (Inr (), w3)" and
    s4: "git_add E d ''.'' w3 = (Inr (), w4)" and
    s5: "getGitAuthor E w4 = (Inr a, w5)" and
    s6: "git_commit E d (''Reverted all changes back to version '' @ t) a w5 = (Inr x, w6)" and
    s7: "prune_messages E t w6 = (Inr (), w')"
    by blast
  from git_checkout_Inr [OF s1] obtain r h c0 where
    r: "repos w d = Some r" and rr: "resolve_ref r ''main'' = Some (h, c0)" and
    w1: "w1 = w\<lparr>calls := calls w @ [GitCheckout d ''main'' True],
                  files := checkout_files d (index r) (c_tree c0) (files w),
                  dirs := dirs w \<union> checkout_dirs d (c_tree c0),
                  repos := (repos w)(d \<mapsto> r\<lparr>head := h, index := c_tree c0\<rparr>)\<rparr>"
    by blast
  from rr have h: "h = OnBranch ''main''"
    by (auto simp: resolve_ref_def is_oid_main split: option.splits if_splits)
  have h1: "history w1 d = Some (commits r, branches r, OnBranch ''main'')"
    using w1 h by (simp add: history_def)
  have h2: "history w2 d = history w1 d"
    using git_statusMatrix_Inr [OF s2] by (simp add: history_def)
  have h3: "history w3 d = history w2 d"
    by (rule restore_rows_frame [OF s3, THEN conjunct2, THEN conjunct2, THEN conjunct2,
          THEN conjunct2, THEN conjunct1, THEN spec])
  have h4: "history w4 d = history w3 d"
    using git_add_frame [OF s4] by simp
  have h5: "history w5 d = history w4 d"
    using getGitAuthor_Inr [OF s5] by (simp add: history_def)
  from h1 h2 h3 h4 h5 have hist5: "history w5 d = Some (commits r, branches r, OnBranch ''main'')"
    by simp
  from git_commit_Inr [OF s6] obtain r5 where
    r5: "repos w5 d = Some r5" and
    w6: "w6 = w5\<lparr>calls := calls w5 @ [GitCommit d (''Reverted all changes back to version '' @ t)],
                   repos := (repos w5)(d \<mapsto> commit_on_head r5
                     (new_commit E r5 (''Reverted all changes back to version '' @ t) a))\<rparr>"
    by blast
  define c where "c = new_commit E r5 (''Reverted all changes back to version '' @ t) a"
  from hist5 r5 have c5: "commits r5 = commits r" and b5: "branches r5 = branches r"
    and hd5: "head r5 = OnBranch ''main''"
    by (simp_all add: history_def)
  have r6: "repos w6 d = Some (commit_on_head r5 c)" using w6 c_def by simp
  have r7: "repos w' d = repos w6 d" using prune_messages_Inr [OF s7] by simp
  have "head (commit_on_head r5 c) = OnBranch ''main''"
    and "commits (commit_on_head r5 c) = c # commits r"
    and "branches (commit_on_head r5 c) = (branches r)(''main'' \<mapsto> c_oid c)"
    using c5 b5 hd5 by (simp_all add: commit_on_head_def)
  moreover have "c_parent c = branches r ''main''"
    using b5 hd5 by (simp add: c_def new_commit_def head_oid_def)
  moreover have "c_message c = normalizeNewlines (''Reverted all changes back to version '' @ t)"
    by (simp add: c_def new_commit_def)
  ultimately show ?thesis using r r6 r7 by auto
qed

subsection \<open>The checkout handler\<close>

lemma checkout_version_known:
  assumes "db_findApp E appId w = (Inr (Some app), w0)"
  shows "checkout_version E appId v w =
           (case git_checkout E (getDyadAppPath E (app_path app)) v w0 of
              (Inr u, w1) \<Rightarrow> (Inr \<lparr>success = True\<rparr>, w1)
            | (Inl cause, w1) \<Rightarrow>
                (Inl (Error (''Failed to checkout version: '' @ message_of cause)),
                 w1\<lparr>logs := logs w1 @
                    [''Error checking out version '' @ v @ '' for app '' @ show_int appId
                       @ '': '' @ message_of cause]\<rparr>))"
  using assms
  by (simp add: checkout_version_def withLock_def Let_def try_catch_def throw_def and_then_def
      succeed_def logger_error_def split: option.splits sum.splits prod.splits)

lemma checkout_version_unknown:
  assumes "db_findApp E appId w = (Inr None, w0)"
  shows "checkout_version E appId v w = (Inl (Error ''App not found''), w0)"
  using assms by (simp add: checkout_version_def withLock_def throw_def and_then_def)

lemma checkout_version_lookup_fails:
  assumes "db_findApp E appId w = (Inl cause, w0)"
  shows "checkout_version E appId v w = (Inl cause, w0)"
  using assms by (simp add: checkout_version_def withLock_def and_then_def)

subsection \<open>The handlers that read\<close>

lemma list_versions_known:
  assumes "db_findApp E appId w = (Inr (Some app), w0)"
  shows "list_versions E appId w =
           (if \<not> fs_existsSync w (path_join (getDyadAppPath E (app_path app)) ''.git'')
            then (Inr [], w0)
            else (case git_log E (getDyadAppPath E (app_path app)) 10000 w0 of
                    (Inr cs, w1) \<Rightarrow> (Inr (map to_version cs), w1)
                  | (Inl cause, w1) \<Rightarrow>
                      (Inl (Error (''Failed to list versions: '' @ message_of cause)),
                       w1\<lparr>logs := logs w1 @
                          [''Error listing versions for app '' @ show_int appId @ '': ''
                             @ message_of cause]\<rparr>)))"
  using assms db_findApp_frame [OF assms]
  by (simp add: list_versions_def Let_def try_catch_def throw_def and_then_def succeed_def
      logger_error_def fs_existsSync_def split: option.splits sum.splits prod.splits)

lemma get_current_branch_known:
  assumes "db_findApp E appId w = (Inr (Some app), w0)"
  shows "get_current_branch E appId w =
           (if \<not> fs_existsSync w (path_join (getDyadAppPath E (app_path app)) ''.git'')
            then (Inr (BranchFailure ''Not a git repository''), w0)
            else (case git_currentBranch E (getDyadAppPath E (app_path app)) w0 of
                    (Inr b, w1) \<Rightarrow> (Inr (BranchSuccess (branch_or_sentinel b)), w1)
                  | (Inl cause, w1) \<Rightarrow>
                      (Inr (BranchFailure (''Failed to get current branch: '' @ message_of cause)),
                       w1\<lparr>logs := logs w1 @
                          [''Error getting current branch for app '' @ show_int appId @ '': ''
                             @ message_of cause]\<rparr>)))"
  using assms db_findApp_frame [OF assms]
  by (simp add: get_current_branch_def Let_def try_catch_def and_then_def succeed_def
      logger_error_def fs_existsSync_def split: option.splits sum.splits prod.splits)

lemma log_walk_commits:
  "log_walk depth r x = Inr cs \<Longrightarrow> set cs \<subseteq> set (commits r)"
proof (induction depth r x arbitrary: cs rule: log_walk.induct)
  case (1 depth r)
  then show ?case by (simp add: log_walk.simps)
next
  case (2 depth r x)
  show ?case
  proof (cases "depth = 0")
    case True
    with "2.prems" show ?thesis by (simp add: log_walk.simps)
  next
    case False
    with "2.prems" obtain c cs' where
      fc: "find_commit r x = Some c" and
      lw: "log_walk (depth - 1) r (c_parent c) = Inr cs'" and
      cs: "cs = c # cs'"
      by (auto simp: log_walk.simps split: option.splits sum.splits)
    from fc have "c \<in> set (commits r)"
      by (auto simp: find_commit_def find_Some_iff)
    with "2.IH" [OF False fc lw] cs show ?thesis by simp
  qed
qed

lemma git_log_Inr:
  assumes "git_log E d depth w = (Inr cs, w')"
  shows "\<exists>r. repos w d = Some r \<and> set cs \<subseteq> set (commits r)"
proof -
  from assms obtain r x where "repos w d = Some r" and "log_walk depth r (Some x) = Inr cs"
    by (auto simp: git_log_def attempt_def Let_def split: option.splits sum.splits)
  with log_walk_commits show ?thesis by blast
qed

lemma list_versions_Inr:
  assumes "list_versions E appId w = (Inr vs, w')"
  shows "\<exists>app w0. db_findApp E appId w = (Inr (Some app), w0)
           \<and> (vs = [] \<or> (\<exists>r cs. repos w (getDyadAppPath E (app_path app)) = Some r
                            \<and> set cs \<subseteq> set (commits r) \<and> vs = map to_version cs))"
proof -
  obtain r w0 where l: "db_findApp E appId w = (r, w0)" by (cases "db_findApp E appId w")
  show ?thesis
  proof (cases r)
    case (Inl cause)
    with l assms show ?thesis by (simp add: list_versions_def and_then_def)
  next
    case (Inr found)
    show ?thesis
    proof (cases found)
      case None
      with l Inr assms show ?thesis by (simp add: list_versions_def and_then_def throw_def)
    next
      case (Some app)
      with l Inr have k: "db_findApp E appId w = (Inr (Some app), w0)" by simp
      define d where "d = getDyadAppPath E (app_path app)"
      show ?thesis
      proof (cases "fs_existsSync w (path_join d ''.git'')")
        case False
        with assms have "vs = []"
          unfolding list_versions_known [OF k] d_def by simp
        with k show ?thesis by blast
      next
        case True
        with assms obtain cs w1 where
          g: "git_log E d 10000 w0 = (Inr cs, w1)" and v: "vs = map to_version cs"
          unfolding list_versions_known [OF k] d_def
          by (auto split: prod.splits sum.splits)
        from git_log_Inr [OF g] obtain r where
          "repos w0 d = Some r" and "set cs \<subseteq> set (commits r)" by blast
        with db_findApp_frame(5) [OF k] v k show ?thesis unfolding d_def by auto
      qed
    qed
  qed
qed

lemma db_findApp_same_apps:
  assumes "apps w' = apps w"
      and "db_findApp E appId w' = (Inr found, w0')"
  shows "db_findApp E appId w = (Inr found, w\<lparr>calls := calls w @ [FindApp appId]\<rparr>)"
  using assms
  by (auto simp: db_findApp_def attempt_def Let_def split: option.splits)

subsection \<open>A revert that fails\<close>









section \<open>The claims\<close>

subsection \<open>Listing versions\<close>



subsection \<open>The current branch\<close>

text \<open>
  Claim C4, as the code has it. Whenever the lookup of the app in the table \<^verbatim>\<open>apps\<close>
  returns, \<^verbatim>\<open>get-current-branch\<close> returns a result value: the failure \<^verbatim>\<open>App not found\<close>
  for an unknown app, the failure \<^verbatim>\<open>Not a git repository\<close> when the directory has no
  \<^verbatim>\<open>.git\<close>, the failure \<^verbatim>\<open>Failed to get current branch:\<close> with the message of the cause
  when the branch read throws, and otherwise a success with the name of the branch. The
  three failure messages differ from one another. The lookup is awaited outside the
  \<^verbatim>\<open>try\<close> block: when it throws, the handler throws the same error.
\<close>

theorem current_branch_raises_only_on_lookup:
  "(\<forall>cause w0. db_findApp E appId w = (Inl cause, w0) \<longrightarrow>
        get_current_branch E appId w = (Inl cause, w0))
   \<and> (\<forall>found w0. db_findApp E appId w = (Inr found, w0) \<longrightarrow>
        (\<exists>r. fst (get_current_branch E appId w) = Inr r)
      \<and> (found = None \<longrightarrow>
           fst (get_current_branch E appId w) = Inr (BranchFailure ''App not found''))
      \<and> (\<forall>app. found = Some app
             \<and> \<not> fs_existsSync w (path_join (getDyadAppPath E (app_path app)) ''.git'') \<longrightarrow>
           fst (get_current_branch E appId w) = Inr (BranchFailure ''Not a git repository''))
      \<and> (\<forall>app cause. found = Some app
             \<and> fs_existsSync w (path_join (getDyadAppPath E (app_path app)) ''.git'')
             \<and> fst (git_currentBranch E (getDyadAppPath E (app_path app)) w0) = Inl cause \<longrightarrow>
           fst (get_current_branch E appId w)
             = Inr (BranchFailure (''Failed to get current branch: '' @ message_of cause)))
      \<and> (\<forall>app b. found = Some app
             \<and> fs_existsSync w (path_join (getDyadAppPath E (app_path app)) ''.git'')
             \<and> fst (git_currentBranch E (getDyadAppPath E (app_path app)) w0) = Inr (Some b)
             \<and> b \<noteq> [] \<longrightarrow>
           fst (get_current_branch E appId w) = Inr (BranchSuccess b)))
   \<and> ''App not found'' \<noteq> ''Not a git repository''
   \<and> (\<forall>m. ''Failed to get current branch: '' @ m \<noteq> ''App not found''
          \<and> ''Failed to get current branch: '' @ m \<noteq> ''Not a git repository'')"
proof -
  have raising: "\<forall>cause w0. db_findApp E appId w = (Inl cause, w0) \<longrightarrow>
        get_current_branch E appId w = (Inl cause, w0)"
    by (simp add: get_current_branch_def and_then_def)
  have returning: "\<forall>found w0. db_findApp E appId w = (Inr found, w0) \<longrightarrow>
        (\<exists>r. fst (get_current_branch E appId w) = Inr r)
      \<and> (found = None \<longrightarrow>
           fst (get_current_branch E appId w) = Inr (BranchFailure ''App not found''))
      \<and> (\<forall>app. found = Some app
             \<and> \<not> fs_existsSync w (path_join (getDyadAppPath E (app_path app)) ''.git'') \<longrightarrow>
           fst (get_current_branch E appId w) = Inr (BranchFailure ''Not a git repository''))
      \<and> (\<forall>app cause. found = Some app
             \<and> fs_existsSync w (path_join (getDyadAppPath E (app_path app)) ''.git'')
             \<and> fst (git_currentBranch E (getDyadAppPath E (app_path app)) w0) = Inl cause \<longrightarrow>
           fst (get_current_branch E appId w)
             = Inr (BranchFailure (''Failed to get current branch: '' @ message_of cause)))
      \<and> (\<forall>app b. found = Some app
             \<and> fs_existsSync w (path_join (getDyadAppPath E (app_path app)) ''.git'')
             \<and> fst (git_currentBranch E (getDyadAppPath E (app_path app)) w0) = Inr (Some b)
             \<and> b \<noteq> [] \<longrightarrow>
           fst (get_current_branch E appId w) = Inr (BranchSuccess b))"
  proof (intro allI impI)
    fix found w0
    assume l: "db_findApp E appId w = (Inr found, w0)"
    show "(\<exists>r. fst (get_current_branch E appId w) = Inr r)
      \<and> (found = None \<longrightarrow>
           fst (get_current_branch E appId w) = Inr (BranchFailure ''App not found''))
      \<and> (\<forall>app. found = Some app
             \<and> \<not> fs_existsSync w (path_join (getDyadAppPath E (app_path app)) ''.git'') \<longrightarrow>
           fst (get_current_branch E appId w) = Inr (BranchFailure ''Not a git repository''))
      \<and> (\<forall>app cause. found = Some app
             \<and> fs_existsSync w (path_join (getDyadAppPath E (app_path app)) ''.git'')
             \<and> fst (git_currentBranch E (getDyadAppPath E (app_path app)) w0) = Inl cause \<longrightarrow>
           fst (get_current_branch E appId w)
             = Inr (BranchFailure (''Failed to get current branch: '' @ message_of cause)))
      \<and> (\<forall>app b. found = Some app
             \<and> fs_existsSync w (path_join (getDyadAppPath E (app_path app)) ''.git'')
             \<and> fst (git_currentBranch E (getDyadAppPath E (app_path app)) w0) = Inr (Some b)
             \<and> b \<noteq> [] \<longrightarrow>
           fst (get_current_branch E appId w) = Inr (BranchSuccess b))"
    proof (cases found)
      case None
      with l show ?thesis
        by (simp add: get_current_branch_def and_then_def succeed_def)
    next
      case (Some app)
      with l have k: "db_findApp E appId w = (Inr (Some app), w0)" by simp
      show ?thesis
        unfolding get_current_branch_known [OF k] Some
        by (auto simp: branch_or_sentinel_def split: prod.splits sum.splits)
    qed
  qed
  show ?thesis by (intro conjI raising returning) simp_all
qed

theorem current_branch_raises_only_on_lookup_witness:
  "fst (db_findApp lookup_failing_env 1 demo_world) = Inl (Error ''database is locked'')
   \<and> fst (get_current_branch lookup_failing_env 1 demo_world) = Inl (Error ''database is locked'')
   \<and> fst (db_findApp demo_env 4 demo_world) = Inr None
   \<and> fst (get_current_branch demo_env 4 demo_world) = Inr (BranchFailure ''App not found'')
   \<and> fst (get_current_branch demo_env 2 demo_world) = Inr (BranchFailure ''Not a git repository'')
   \<and> fst (get_current_branch demo_env 3 demo_world)
       = Inr (BranchFailure
           ''Failed to get current branch: Could not find git repository in /apps/broken'')
   \<and> fst (get_current_branch demo_env 1 demo_world) = Inr (BranchSuccess ''main'')"
proof -
  have f0: "fst (db_findApp lookup_failing_env 1 demo_world) = Inl (Error ''database is locked'')"
    by code_simp
  have l0: "db_findApp lookup_failing_env 1 demo_world
      = (Inl (Error ''database is locked''), snd (db_findApp lookup_failing_env 1 demo_world))"
    by (simp add: prod_eq_iff f0)
  have f4: "fst (db_findApp demo_env 4 demo_world) = Inr None" by code_simp
  have l4: "db_findApp demo_env 4 demo_world = (Inr None, snd (db_findApp demo_env 4 demo_world))"
    by (simp add: prod_eq_iff f4)
  have f2: "fst (db_findApp demo_env 2 demo_world) = Inr (Some \<lparr>app_id = 2, app_path = ''fresh''\<rparr>)"
    by code_simp
  have l2: "db_findApp demo_env 2 demo_world
      = (Inr (Some \<lparr>app_id = 2, app_path = ''fresh''\<rparr>), snd (db_findApp demo_env 2 demo_world))"
    by (simp add: prod_eq_iff f2)
  have f3: "fst (db_findApp demo_env 3 demo_world) = Inr (Some \<lparr>app_id = 3, app_path = ''broken''\<rparr>)"
    by code_simp
  have l3: "db_findApp demo_env 3 demo_world
      = (Inr (Some \<lparr>app_id = 3, app_path = ''broken''\<rparr>), snd (db_findApp demo_env 3 demo_world))"
    by (simp add: prod_eq_iff f3)
  have f1: "fst (db_findApp demo_env 1 demo_world) = Inr (Some \<lparr>app_id = 1, app_path = ''demo''\<rparr>)"
    by code_simp
  have l1: "db_findApp demo_env 1 demo_world
      = (Inr (Some \<lparr>app_id = 1, app_path = ''demo''\<rparr>), snd (db_findApp demo_env 1 demo_world))"
    by (simp add: prod_eq_iff f1)
  have a2: "Some \<lparr>app_id = 2, app_path = ''fresh''\<rparr> = Some \<lparr>app_id = 2, app_path = ''fresh''\<rparr>
      \<and> \<not> fs_existsSync demo_world
            (path_join (getDyadAppPath demo_env (app_path \<lparr>app_id = 2, app_path = ''fresh''\<rparr>)) ''.git'')"
    by code_simp
  have a3: "Some \<lparr>app_id = 3, app_path = ''broken''\<rparr> = Some \<lparr>app_id = 3, app_path = ''broken''\<rparr>
      \<and> fs_existsSync demo_world
            (path_join (getDyadAppPath demo_env (app_path \<lparr>app_id = 3, app_path = ''broken''\<rparr>)) ''.git'')
      \<and> fst (git_currentBranch demo_env
            (getDyadAppPath demo_env (app_path \<lparr>app_id = 3, app_path = ''broken''\<rparr>))
            (snd (db_findApp demo_env 3 demo_world)))
          = Inl (Error ''Could not find git repository in /apps/broken'')"
    by code_simp
  have a1: "Some \<lparr>app_id = 1, app_path = ''demo''\<rparr> = Some \<lparr>app_id = 1, app_path = ''demo''\<rparr>
      \<and> fs_existsSync demo_world
            (path_join (getDyadAppPath demo_env (app_path \<lparr>app_id = 1, app_path = ''demo''\<rparr>)) ''.git'')
      \<and> fst (git_currentBranch demo_env
            (getDyadAppPath demo_env (app_path \<lparr>app_id = 1, app_path = ''demo''\<rparr>))
            (snd (db_findApp demo_env 1 demo_world)))
          = Inr (Some ''main'')
      \<and> ''main'' \<noteq> []"
    by code_simp
  note t0 = current_branch_raises_only_on_lookup [of lookup_failing_env 1 demo_world]
  note t4 = current_branch_raises_only_on_lookup [of demo_env 4 demo_world,
      THEN conjunct2, THEN conjunct1, THEN spec, THEN spec, THEN mp, OF l4]
  note t2 = current_branch_raises_only_on_lookup [of demo_env 2 demo_world,
      THEN conjunct2, THEN conjunct1, THEN spec, THEN spec, THEN mp, OF l2]
  note t3 = current_branch_raises_only_on_lookup [of demo_env 3 demo_world,
      THEN conjunct2, THEN conjunct1, THEN spec, THEN spec, THEN mp, OF l3]
  note t1 = current_branch_raises_only_on_lookup [of demo_env 1 demo_world,
      THEN conjunct2, THEN conjunct1, THEN spec, THEN spec, THEN mp, OF l1]
  from t0 [THEN conjunct1, THEN spec, THEN spec, THEN mp, OF l0]
  have r0: "fst (get_current_branch lookup_failing_env 1 demo_world)
      = Inl (Error ''database is locked'')"
    by simp
  have r4: "fst (get_current_branch demo_env 4 demo_world) = Inr (BranchFailure ''App not found'')"
    by (rule t4 [THEN conjunct2, THEN conjunct1, THEN mp, OF refl])
  have r2: "fst (get_current_branch demo_env 2 demo_world)
      = Inr (BranchFailure ''Not a git repository'')"
    by (rule t2 [THEN conjunct2, THEN conjunct2, THEN conjunct1, THEN spec, THEN mp, OF a2])
  have "fst (get_current_branch demo_env 3 demo_world)
      = Inr (BranchFailure (''Failed to get current branch: ''
          @ message_of (Error ''Could not find git repository in /apps/broken'')))"
    by (rule t3 [THEN conjunct2, THEN conjunct2, THEN conjunct2, THEN conjunct1,
          THEN spec, THEN spec, THEN mp, OF a3])
  then have r3: "fst (get_current_branch demo_env 3 demo_world)
       = Inr (BranchFailure
           ''Failed to get current branch: Could not find git repository in /apps/broken'')"
    by simp
  have r1: "fst (get_current_branch demo_env 1 demo_world) = Inr (BranchSuccess ''main'')"
    by (rule t1 [THEN conjunct2, THEN conjunct2, THEN conjunct2, THEN conjunct2,
          THEN spec, THEN spec, THEN mp, OF a1])
  from f0 r0 f4 r4 r2 r3 r1 show ?thesis by (intro conjI)
qed

text \<open>
  Against claim C4 as stated: when the lookup of the app throws \<^verbatim>\<open>database is locked\<close>,
  \<^verbatim>\<open>get-current-branch\<close> does not return a result value; it throws that error.
\<close>

theorem current_branch_raises_on_lookup_failure:
  "fst (get_current_branch lookup_failing_env 1 demo_world) = Inl (Error ''database is locked'')"
  by code_simp

text \<open>
  Claim C10. When the lookup finds the app, \<^verbatim>\<open>.git\<close> is there and \<^verbatim>\<open>HEAD\<close> is detached,
  so that \<^verbatim>\<open>git.currentBranch\<close> yields no name, \<^verbatim>\<open>get-current-branch\<close> returns a success
  whose branch is the text \<^verbatim>\<open><no-branch>\<close>.
\<close>

theorem current_branch_detached_sentinel:
  assumes "db_findApp E appId w = (Inr (Some app), w0)"
      and "fs_existsSync w (path_join (getDyadAppPath E (app_path app)) ''.git'')"
      and "fst (git_currentBranch E (getDyadAppPath E (app_path app)) w0) = Inr None"
  shows "fst (get_current_branch E appId w) = Inr (BranchSuccess ''<no-branch>'')"
  using assms(2,3) unfolding get_current_branch_known [OF assms(1)]
  by (auto simp: branch_or_sentinel_def split: prod.splits sum.splits)

theorem current_branch_detached_sentinel_witness:
  "fst (db_findApp demo_env 1 detached_world) = Inr (Some \<lparr>app_id = 1, app_path = ''demo''\<rparr>)
   \<and> fs_existsSync detached_world (path_join ''/apps/demo'' ''.git'')
   \<and> map_option head (repos detached_world ''/apps/demo'') = Some (Detached oid1)
   \<and> fst (git_currentBranch demo_env ''/apps/demo'' (snd (db_findApp demo_env 1 detached_world)))
       = Inr None
   \<and> fst (get_current_branch demo_env 1 detached_world) = Inr (BranchSuccess ''<no-branch>'')"
proof -
  define w0 where "w0 = snd (db_findApp demo_env 1 detached_world)"
  have f1: "fst (db_findApp demo_env 1 detached_world)
      = Inr (Some \<lparr>app_id = 1, app_path = ''demo''\<rparr>)"
    by code_simp
  have h1: "db_findApp demo_env 1 detached_world
      = (Inr (Some \<lparr>app_id = 1, app_path = ''demo''\<rparr>), w0)"
    by (simp add: prod_eq_iff f1 w0_def)
  have p: "getDyadAppPath demo_env (app_path \<lparr>app_id = 1, app_path = ''demo''\<rparr>) = ''/apps/demo''"
    by code_simp
  have h2: "fs_existsSync detached_world (path_join ''/apps/demo'' ''.git'')"
    by code_simp
  have h3: "fst (git_currentBranch demo_env ''/apps/demo'' w0) = Inr None"
    unfolding w0_def by code_simp
  have h4: "map_option head (repos detached_world ''/apps/demo'') = Some (Detached oid1)"
    by code_simp
  have "fst (get_current_branch demo_env 1 detached_world) = Inr (BranchSuccess ''<no-branch>'')"
    by (rule current_branch_detached_sentinel [OF h1]) (simp_all only: p h2 h3)
  with f1 h2 h3 h4 show ?thesis unfolding w0_def by (intro conjI)
qed

subsection \<open>Reverting\<close>

text \<open>
  Claim C1. In a revert that succeeds, take any row of the status matrix that the
  comparison with the target snapshot reports once main is checked out, the matrix having
  one row for a path. If the path is in the target snapshot and its working-directory
  status is not 1 (unmodified), then at the end the file on disk has exactly the content
  the target snapshot has for the path, and its parent directory exists. If the path is
  not in the target snapshot, its working-directory status is not 0 and the file is on
  disk, then at the end the file is gone from disk and the path is not in the index.
\<close>

theorem revert_restores_reported_paths:
  assumes "db_findApp E appId w = (Inr (Some app), w0)"
      and "appPath = getDyadAppPath E (app_path app)"
      and "revert_version E appId t w = (Inr ok, w')"
      and "git_checkout E appPath ''main'' w0 = (Inr u, w1)"
      and "git_statusMatrix E appPath t w1 = (Inr matrix, w2)"
      and "distinct (map fst matrix)"
      and "(filepath, headStatus, workdirStatus, stageStatus) \<in> set matrix"
  shows "(headStatus = 1 \<and> workdirStatus \<noteq> 1 \<longrightarrow>
            snapshot_blob w appPath t filepath \<noteq> None
          \<and> map_of (files w') (path_join appPath filepath) = snapshot_blob w appPath t filepath
          \<and> path_dirname (path_join appPath filepath) \<in> dirs w')
       \<and> (headStatus = 0 \<and> workdirStatus \<noteq> 0
            \<and> map_of (files w1) (path_join appPath filepath) \<noteq> None \<longrightarrow>
            map_of (files w') (path_join appPath filepath) = None
          \<and> staged_at w' appPath filepath = None)"
proof -
  from assms(3) have steps: "revert_steps E appPath t w0 = (Inr ok, w')"
    unfolding revert_version_known [OF assms(1)] assms(2)
    by (auto split: prod.splits sum.splits)
  have same: "snapshot_blob w0 appPath t q = snapshot_blob w appPath t q" for q
    using db_findApp_frame(5) [OF assms(1)] by (simp add: snapshot_blob_def)
  from revert_steps_effects [OF steps] assms(4,5) obtain w3 where
    f2: "files w2 = files w1" and
    s3: "restore_rows E appPath t matrix w2 = (Inr (), w3)" and
    fl: "files w' = files w3" and dr: "dirs w' = dirs w3" and
    st: "\<forall>q. staged_at w' appPath q =
                (case map_of (files w3) (path_join appPath q) of
                   Some b \<Rightarrow> Some b | None \<Rightarrow> staged_at w3 appPath q)" and
    sb0: "\<forall>q. snapshot_blob w2 appPath t q = snapshot_blob w0 appPath t q"
    by auto
  from sb0 same have sb: "\<forall>q. snapshot_blob w2 appPath t q = snapshot_blob w appPath t q"
    by simp
  note eff = restore_rows_effect [OF s3 assms(6,7)]
  show ?thesis
  proof (intro conjI impI)
    assume a: "headStatus = 1 \<and> workdirStatus \<noteq> 1"
    note x = eff [THEN conjunct1, THEN mp, OF a]
    from x [THEN conjunct1] sb show "snapshot_blob w appPath t filepath \<noteq> None" by simp
    from x [THEN conjunct2, THEN conjunct1] sb fl
    show "map_of (files w') (path_join appPath filepath) = snapshot_blob w appPath t filepath"
      by simp
    from x [THEN conjunct2, THEN conjunct2] dr
    show "path_dirname (path_join appPath filepath) \<in> dirs w'" by simp
  next
    assume a: "headStatus = 0 \<and> workdirStatus \<noteq> 0
                 \<and> map_of (files w1) (path_join appPath filepath) \<noteq> None"
    with f2 have a2: "headStatus = 0 \<and> workdirStatus \<noteq> 0
                 \<and> map_of (files w2) (path_join appPath filepath) \<noteq> None" by simp
    note x = eff [THEN conjunct2, THEN mp, OF a2]
    from x [THEN conjunct1] fl
    show gone: "map_of (files w') (path_join appPath filepath) = None" by simp
    from x [THEN conjunct1] have "map_of (files w3) (path_join appPath filepath) = None" .
    with st x [THEN conjunct2, THEN conjunct2]
    show "staged_at w' appPath filepath = None" by simp
  qed
qed

theorem revert_restores_reported_paths_witness:
  "fst (db_findApp demo_env 1 demo_world) = Inr (Some \<lparr>app_id = 1, app_path = ''demo''\<rparr>)
   \<and> fst (revert_version demo_env 1 oid1 demo_world) = Inr \<lparr>success = True\<rparr>
   \<and> fst (git_checkout demo_env ''/apps/demo'' ''main''
            (snd (db_findApp demo_env 1 demo_world))) = Inr ()
   \<and> fst (git_statusMatrix demo_env ''/apps/demo'' oid1
            (snd (git_checkout demo_env ''/apps/demo'' ''main''
               (snd (db_findApp demo_env 1 demo_world))))) = Inr demo_matrix
   \<and> distinct (map fst demo_matrix)
   \<and> demo_matrix = [(''a.txt'', 1, 2, 2), (''extra.txt'', 0, 2, 2), (''src/b.txt'', 1, 0, 0)]
   \<and> map_of (files (snd (git_checkout demo_env ''/apps/demo'' ''main''
                           (snd (db_findApp demo_env 1 demo_world)))))
        ''/apps/demo/extra.txt'' = Some ''x''
   \<and> map_of (files (snd (revert_version demo_env 1 oid1 demo_world))) ''/apps/demo/a.txt''
        = Some ''old a''
   \<and> map_of (files (snd (revert_version demo_env 1 oid1 demo_world))) ''/apps/demo/src/b.txt''
        = Some ''b''
   \<and> ''/apps/demo/src'' \<in> dirs (snd (revert_version demo_env 1 oid1 demo_world))
   \<and> map_of (files (snd (revert_version demo_env 1 oid1 demo_world))) ''/apps/demo/extra.txt''
        = None
   \<and> staged_at (snd (revert_version demo_env 1 oid1 demo_world)) ''/apps/demo'' ''extra.txt''
        = None"
proof -
  define w0 where "w0 = snd (db_findApp demo_env 1 demo_world)"
  define w1 where "w1 = snd (git_checkout demo_env ''/apps/demo'' ''main'' w0)"
  define w2 where "w2 = snd (git_statusMatrix demo_env ''/apps/demo'' oid1 w1)"
  define w' where "w' = snd (revert_version demo_env 1 oid1 demo_world)"
  have fa: "fst (db_findApp demo_env 1 demo_world) = Inr (Some \<lparr>app_id = 1, app_path = ''demo''\<rparr>)"
    by code_simp
  have a: "db_findApp demo_env 1 demo_world = (Inr (Some \<lparr>app_id = 1, app_path = ''demo''\<rparr>), w0)"
    by (simp add: prod_eq_iff fa w0_def)
  have p: "''/apps/demo'' = getDyadAppPath demo_env (app_path \<lparr>app_id = 1, app_path = ''demo''\<rparr>)"
    by code_simp
  have fr: "fst (revert_version demo_env 1 oid1 demo_world) = Inr \<lparr>success = True\<rparr>"
    by code_simp
  have fc: "fst (git_checkout demo_env ''/apps/demo'' ''main'' w0) = Inr ()"
    unfolding w0_def by code_simp
  have fm: "fst (git_statusMatrix demo_env ''/apps/demo'' oid1 w1) = Inr demo_matrix"
    unfolding w1_def w0_def by code_simp
  have r: "revert_version demo_env 1 oid1 demo_world = (Inr \<lparr>success = True\<rparr>, w')"
    by (simp add: prod_eq_iff fr w'_def)
  have c: "git_checkout demo_env ''/apps/demo'' ''main'' w0 = (Inr (), w1)"
    by (simp add: prod_eq_iff fc w1_def)
  have m: "git_statusMatrix demo_env ''/apps/demo'' oid1 w1 = (Inr demo_matrix, w2)"
    by (simp add: prod_eq_iff fm w2_def)
  have dist: "distinct (map fst demo_matrix)" by code_simp
  have mx: "demo_matrix = [(''a.txt'', 1, 2, 2), (''extra.txt'', 0, 2, 2), (''src/b.txt'', 1, 0, 0)]"
    by (simp add: demo_matrix_def)
  have ex: "map_of (files w1) ''/apps/demo/extra.txt'' = Some ''x''"
    unfolding w1_def w0_def by code_simp
  note T = revert_restores_reported_paths [OF a p r c m dist]
  have ja: "path_join ''/apps/demo'' ''a.txt'' = ''/apps/demo/a.txt''"
    and jb: "path_join ''/apps/demo'' ''src/b.txt'' = ''/apps/demo/src/b.txt''"
    and je: "path_join ''/apps/demo'' ''extra.txt'' = ''/apps/demo/extra.txt''"
    and db: "path_dirname ''/apps/demo/src/b.txt'' = ''/apps/demo/src''"
    by (simp_all add: path_join_def path_dirname_def)
  have sa: "snapshot_blob demo_world ''/apps/demo'' oid1 ''a.txt'' = Some ''old a''"
    and sb: "snapshot_blob demo_world ''/apps/demo'' oid1 ''src/b.txt'' = Some ''b''"
    by code_simp+
  have "(''a.txt'', 1, 2, 2) \<in> set demo_matrix" by (simp add: mx)
  from T [OF this, THEN conjunct1]
  have ra: "map_of (files w') ''/apps/demo/a.txt'' = Some ''old a''"
    by (simp add: ja sa)
  have "(''src/b.txt'', 1, 0, 0) \<in> set demo_matrix" by (simp add: mx)
  from T [OF this, THEN conjunct1]
  have rb: "map_of (files w') ''/apps/demo/src/b.txt'' = Some ''b''"
    and rd: "''/apps/demo/src'' \<in> dirs w'"
    by (simp_all add: jb sb db)
  have "(''extra.txt'', 0, 2, 2) \<in> set demo_matrix" by (simp add: mx)
  from T [OF this, THEN conjunct2] ex
  have re: "map_of (files w') ''/apps/demo/extra.txt'' = None"
    and rs: "staged_at w' ''/apps/demo'' ''extra.txt'' = None"
    by (simp_all add: je)
  from fa fr fc fm dist mx ex ra rb rd re rs show ?thesis
    unfolding w'_def w2_def w1_def w0_def by (intro conjI)
qed

text \<open>
  Claim C2. After a revert to \<open>t\<close> that succeeds, when a message carries \<open>t\<close> the
  table of messages is the old one without the messages of the same chat whose identifier
  is greater than that of the (first) message carrying \<open>t\<close>: exactly those are deleted,
  the message itself and the earlier ones of its chat remain. When no message carries
  \<open>t\<close> the table is unchanged, and the pruning step, the last one of the revert,
  succeeds without deleting anything.
\<close>

theorem revert_prunes_later_messages:
  "(\<forall>ok w'. revert_version E appId t w = (Inr ok, w') \<longrightarrow>
      (case find (\<lambda>m. commitHash m = Some t) (messages w) of
         None \<Rightarrow> messages w' = messages w
       | Some m0 \<Rightarrow>
           messages w' =
             filter (\<lambda>m. \<not> (chatId m = chatId m0 \<and> msg_id m0 < msg_id m)) (messages w)
         \<and> {m \<in> set (messages w). m \<notin> set (messages w')}
             = {m \<in> set (messages w). chatId m = chatId m0 \<and> msg_id m0 < msg_id m}
         \<and> m0 \<in> set (messages w')
         \<and> (\<forall>m \<in> set (messages w).
               chatId m = chatId m0 \<and> msg_id m \<le> msg_id m0 \<longrightarrow> m \<in> set (messages w'))))
   \<and> (\<forall>w6. find (\<lambda>m. commitHash m = Some t) (messages w6) = None
            \<and> fault E (FindMessageByCommit t) = None \<longrightarrow>
          prune_messages E t w6 = (Inr (), w6\<lparr>calls := calls w6 @ [FindMessageByCommit t]\<rparr>))"
proof (intro conjI allI impI)
  fix ok and w' :: world
  assume r: "revert_version E appId t w = (Inr ok, w')"
  from revert_version_Inr [OF r] obtain app :: app and w0 :: world where
    l: "db_findApp E appId w = (Inr (Some app), w0)" and
    s: "revert_steps E (getDyadAppPath E (app_path app)) t w0 = (Inr ok, w')" by blast
  from revert_steps_effects [OF s]
  have "messages w' = kept_messages t (messages w0)" by blast
  with db_findApp_frame(2) [OF l]
  have k: "messages w' = kept_messages t (messages w)" by simp
  show "case find (\<lambda>m. commitHash m = Some t) (messages w) of
         None \<Rightarrow> messages w' = messages w
       | Some m0 \<Rightarrow>
           messages w' =
             filter (\<lambda>m. \<not> (chatId m = chatId m0 \<and> msg_id m0 < msg_id m)) (messages w)
         \<and> {m \<in> set (messages w). m \<notin> set (messages w')}
             = {m \<in> set (messages w). chatId m = chatId m0 \<and> msg_id m0 < msg_id m}
         \<and> m0 \<in> set (messages w')
         \<and> (\<forall>m \<in> set (messages w).
               chatId m = chatId m0 \<and> msg_id m \<le> msg_id m0 \<longrightarrow> m \<in> set (messages w'))"
  proof (cases "find (\<lambda>m. commitHash m = Some t) (messages w)")
    case None
    with k show ?thesis by (simp add: kept_messages_def)
  next
    case (Some m0)
    then have "m0 \<in> set (messages w)" by (auto simp: find_Some_iff)
    with k Some show ?thesis
      by (auto simp: kept_messages_def in_chat_after_def)
  qed
next
  fix w6 :: world
  assume "find (\<lambda>m. commitHash m = Some t) (messages w6) = None
            \<and> fault E (FindMessageByCommit t) = None"
  then show "prune_messages E t w6 = (Inr (), w6\<lparr>calls := calls w6 @ [FindMessageByCommit t]\<rparr>)"
    by (simp add: prune_messages_def db_findMessageByCommit_def attempt_def and_then_def
        succeed_def)
qed

theorem revert_prunes_later_messages_witness:
  "fst (revert_version demo_env 1 oid1 demo_world) = Inr \<lparr>success = True\<rparr>
   \<and> find (\<lambda>m. commitHash m = Some oid1) (messages demo_world)
       = Some \<lparr>msg_id = 3, chatId = 7, commitHash = Some oid1\<rparr>
   \<and> map msg_id (messages demo_world) = [1, 2, 3, 4, 5, 6]
   \<and> map msg_id (messages (snd (revert_version demo_env 1 oid1 demo_world))) = [1, 2, 3, 6]
   \<and> fst (revert_version demo_env 1 oid2 demo_world) = Inr \<lparr>success = True\<rparr>
   \<and> find (\<lambda>m. commitHash m = Some oid2) (messages demo_world) = None
   \<and> messages (snd (revert_version demo_env 1 oid2 demo_world)) = messages demo_world"
proof -
  define w' where "w' = snd (revert_version demo_env 1 oid1 demo_world)"
  define w'' where "w'' = snd (revert_version demo_env 1 oid2 demo_world)"
  have f1: "fst (revert_version demo_env 1 oid1 demo_world) = Inr \<lparr>success = True\<rparr>"
    by code_simp
  have f2: "fst (revert_version demo_env 1 oid2 demo_world) = Inr \<lparr>success = True\<rparr>"
    by code_simp
  have r1: "revert_version demo_env 1 oid1 demo_world = (Inr \<lparr>success = True\<rparr>, w')"
    by (simp add: prod_eq_iff f1 w'_def)
  have r2: "revert_version demo_env 1 oid2 demo_world = (Inr \<lparr>success = True\<rparr>, w'')"
    by (simp add: prod_eq_iff f2 w''_def)
  have m1: "find (\<lambda>m. commitHash m = Some oid1) (messages demo_world)
       = Some \<lparr>msg_id = 3, chatId = 7, commitHash = Some oid1\<rparr>"
    by code_simp
  have m2: "find (\<lambda>m. commitHash m = Some oid2) (messages demo_world) = None"
    by code_simp
  have ids: "map msg_id (messages demo_world) = [1, 2, 3, 4, 5, 6]"
    by code_simp
  from revert_prunes_later_messages [of demo_env 1 oid1 demo_world, THEN conjunct1,
      THEN spec, THEN spec, THEN mp, OF r1]
  have "messages w' =
      filter (\<lambda>m. \<not> (chatId m = 7 \<and> 3 < msg_id m)) (messages demo_world)"
    by (simp add: m1)
  then have k1: "map msg_id (messages w') = [1, 2, 3, 6]"
    by (simp add: demo_world_def demo_messages_def)
  from revert_prunes_later_messages [of demo_env 1 oid2 demo_world, THEN conjunct1,
      THEN spec, THEN spec, THEN mp, OF r2]
  have k2: "messages w'' = messages demo_world"
    by (simp add: m2)
  from f1 m1 ids k1 f2 m2 k2 show ?thesis
    unfolding w'_def w''_def by (intro conjI)
qed

text \<open>
  Claim C5, as the code has it. A revert that succeeds returns \<^verbatim>\<open>{ success: true }\<close> and
  nothing else. The number of messages it deletes is written to the log, in the line
  \<^verbatim>\<open>Deleting N messages after commit T from chat C\<close>, when a message carries the target;
  when none does, nothing is logged.
\<close>

theorem revert_logs_the_count:
  assumes "revert_version E appId t w = (Inr ok, w')"
  shows "ok = \<lparr>success = True\<rparr>
       \<and> logs w' = logs w @
           (case find (\<lambda>m. commitHash m = Some t) (messages w) of
              None \<Rightarrow> []
            | Some m0 \<Rightarrow>
                [''Deleting '' @ show_nat (length (messages w) - length (messages w'))
                   @ '' messages after commit '' @ t @ '' from chat '' @ show_int (chatId m0)])"
proof -
  from revert_version_Inr [OF assms] obtain app :: app and w0 :: world where
    l: "db_findApp E appId w = (Inr (Some app), w0)" and
    s: "revert_steps E (getDyadAppPath E (app_path app)) t w0 = (Inr ok, w')" by blast
  from revert_steps_effects [OF s]
  have k0: "messages w' = kept_messages t (messages w0)"
    and l0: "logs w' = logs w0 @ prune_log t (messages w0)"
    and ok: "ok = \<lparr>success = True\<rparr>" by blast+
  from k0 l0 db_findApp_frame(2,6) [OF l]
  have k: "messages w' = kept_messages t (messages w)"
    and lg: "logs w' = logs w @ prune_log t (messages w)" by simp_all
  from k lg ok show ?thesis by (simp add: prune_log_def split: option.splits)
qed

theorem revert_logs_the_count_witness:
  "fst (revert_version demo_env 1 oid1 demo_world) = Inr \<lparr>success = True\<rparr>
   \<and> logs demo_world = []
   \<and> logs (snd (revert_version demo_env 1 oid1 demo_world))
       = [''Deleting 2 messages after commit 9fceb02d0ae598e95dc970b74767f19372d61af8 from chat 7'']"
proof -
  define w' where "w' = snd (revert_version demo_env 1 oid1 demo_world)"
  have f1: "fst (revert_version demo_env 1 oid1 demo_world) = Inr \<lparr>success = True\<rparr>"
    by code_simp
  have r1: "revert_version demo_env 1 oid1 demo_world = (Inr \<lparr>success = True\<rparr>, w')"
    by (simp add: prod_eq_iff f1 w'_def)
  have l0: "logs demo_world = []" by code_simp
  have m1: "find (\<lambda>m. commitHash m = Some oid1) (messages demo_world)
       = Some \<lparr>msg_id = 3, chatId = 7, commitHash = Some oid1\<rparr>"
    by code_simp
  have n: "length (messages demo_world) - length (messages w') = 2"
    unfolding w'_def by code_simp
  have s2: "show_nat 2 = ''2''" and s7: "show_int 7 = ''7''" by code_simp+
  from revert_logs_the_count [OF r1, THEN conjunct2]
  have "logs w' = [''Deleting 2 messages after commit '' @ oid1 @ '' from chat 7'']"
    by (simp add: l0 m1 n s2 s7)
  then have "logs w' =
      [''Deleting 2 messages after commit 9fceb02d0ae598e95dc970b74767f19372d61af8 from chat 7'']"
    by (simp add: oid1_def)
  with f1 l0 show ?thesis unfolding w'_def by (intro conjI)
qed

text \<open>
  Against claim C5 as stated: in chat 7 with the messages 1 to 5, where message 3 carries
  the target, the revert deletes two messages; with a target that no message carries it
  deletes none. The caller receives the same value, \<^verbatim>\<open>{ success: true }\<close>, both times.
\<close>

theorem revert_count_not_returned:
  "map msg_id (filter (\<lambda>m. chatId m = 7) (messages demo_world)) = [1, 2, 3, 4, 5]
   \<and> fst (revert_version demo_env 1 oid1 demo_world) = Inr \<lparr>success = True\<rparr>
   \<and> map msg_id (filter (\<lambda>m. chatId m = 7)
        (messages (snd (revert_version demo_env 1 oid1 demo_world)))) = [1, 2, 3]
   \<and> length (messages demo_world)
        - length (messages (snd (revert_version demo_env 1 oid1 demo_world))) = 2
   \<and> fst (revert_version demo_env 1 oid2 demo_world) = Inr \<lparr>success = True\<rparr>
   \<and> length (messages demo_world)
        - length (messages (snd (revert_version demo_env 1 oid2 demo_world))) = 0"
  by code_simp

text \<open>
  Claim C7. For an app that the lookup finds, whatever the outcome of the revert, the
  first call it makes after the lookup is the forced checkout of \<^verbatim>\<open>main\<close>: the status
  matrix is computed and files are written only after it. When that checkout throws,
  nothing else is called: the revert throws and leaves files, directories, stores and
  messages as the checkout left them. When the revert succeeds, \<^verbatim>\<open>HEAD\<close> is on the branch
  \<^verbatim>\<open>main\<close>, not detached, and the new commit, whose message names the target, is the tip
  of \<^verbatim>\<open>main\<close>, on top of the former tip.
\<close>

theorem revert_begins_with_checkout_main:
  assumes "db_findApp E appId w = (Inr (Some app), w0)"
      and "appPath = getDyadAppPath E (app_path app)"
      and "revert_version E appId t w = (res, w')"
  shows "(\<exists>rest. calls w' = calls w @ FindApp appId # GitCheckout appPath ''main'' True # rest)
       \<and> (\<forall>cause w1. git_checkout E appPath ''main'' w0 = (Inl cause, w1) \<longrightarrow>
            res = Inl (Error (''Failed to revert version: '' @ message_of cause))
          \<and> calls w' = calls w @ [FindApp appId, GitCheckout appPath ''main'' True]
          \<and> files w' = files w1 \<and> dirs w' = dirs w1 \<and> repos w' = repos w1
          \<and> messages w' = messages w)
       \<and> (\<forall>ok. res = Inr ok \<longrightarrow>
            (\<exists>r r' c. repos w appPath = Some r \<and> repos w' appPath = Some r'
               \<and> head r' = OnBranch ''main''
               \<and> commits r' = c # commits r
               \<and> branches r' = (branches r)(''main'' \<mapsto> c_oid c)
               \<and> c_parent c = branches r ''main''
               \<and> c_message c
                   = normalizeNewlines (''Reverted all changes back to version '' @ t)))"
proof -
  note fr = db_findApp_frame [OF assms(1)]
  obtain r1 w1 where st: "revert_steps E appPath t w0 = (r1, w1)"
    by (cases "revert_steps E appPath t w0")
  from revert_steps_calls [OF st] obtain rest where
    c1: "calls w1 = calls w0 @ GitCheckout appPath ''main'' True # rest" by blast
  from assms(3) st have "calls w' = calls w1"
    unfolding revert_version_known [OF assms(1)] assms(2)
    by (auto split: sum.splits)
  with c1 fr(7)
  have first: "\<exists>rest. calls w' = calls w @ FindApp appId # GitCheckout appPath ''main'' True # rest"
    by simp
  have failing: "\<forall>cause w1. git_checkout E appPath ''main'' w0 = (Inl cause, w1) \<longrightarrow>
            res = Inl (Error (''Failed to revert version: '' @ message_of cause))
          \<and> calls w' = calls w @ [FindApp appId, GitCheckout appPath ''main'' True]
          \<and> files w' = files w1 \<and> dirs w' = dirs w1 \<and> repos w' = repos w1
          \<and> messages w' = messages w"
  proof (intro allI impI)
    fix cause w1
    assume f: "git_checkout E appPath ''main'' w0 = (Inl cause, w1)"
    note wf = git_checkout_Inl [OF f]
    from revert_steps_checkout_fails [OF f, of t] wf
    have "revert_steps E appPath t w0 = (Inl cause, w1)" by simp
    with assms(3)
    have "res = Inl (Error (''Failed to revert version: '' @ message_of cause))
      \<and> w' = w1\<lparr>logs := logs w1 @
                    [''Error reverting to version '' @ t @ '' for app '' @ show_int appId
                       @ '': '' @ message_of cause]\<rparr>"
      unfolding revert_version_known [OF assms(1)] assms(2) by simp
    with wf fr(2,7)
    show "res = Inl (Error (''Failed to revert version: '' @ message_of cause))
          \<and> calls w' = calls w @ [FindApp appId, GitCheckout appPath ''main'' True]
          \<and> files w' = files w1 \<and> dirs w' = dirs w1 \<and> repos w' = repos w1
          \<and> messages w' = messages w"
      by simp
  qed
  have succeeding: "\<forall>ok. res = Inr ok \<longrightarrow>
            (\<exists>r r' c. repos w appPath = Some r \<and> repos w' appPath = Some r'
               \<and> head r' = OnBranch ''main''
               \<and> commits r' = c # commits r
               \<and> branches r' = (branches r)(''main'' \<mapsto> c_oid c)
               \<and> c_parent c = branches r ''main''
               \<and> c_message c
                   = normalizeNewlines (''Reverted all changes back to version '' @ t))"
  proof (intro allI impI)
    fix ok
    assume "res = Inr ok"
    with assms(3) have "revert_steps E appPath t w0 = (Inr ok, w')"
      unfolding revert_version_known [OF assms(1)] assms(2)
      by (auto split: sum.splits prod.splits)
    from revert_steps_history [OF this]
    show "\<exists>r r' c. repos w appPath = Some r \<and> repos w' appPath = Some r'
               \<and> head r' = OnBranch ''main''
               \<and> commits r' = c # commits r
               \<and> branches r' = (branches r)(''main'' \<mapsto> c_oid c)
               \<and> c_parent c = branches r ''main''
               \<and> c_message c
                   = normalizeNewlines (''Reverted all changes back to version '' @ t)"
      unfolding fr(5) .
  qed
  show ?thesis by (intro conjI first failing succeeding)
qed

theorem revert_begins_with_checkout_main_witness:
  "fst (db_findApp demo_env 1 demo_world) = Inr (Some \<lparr>app_id = 1, app_path = ''demo''\<rparr>)
   \<and> calls demo_world = []
   \<and> fst (revert_version demo_env 1 oid1 demo_world) = Inr \<lparr>success = True\<rparr>
   \<and> take 2 (calls (snd (revert_version demo_env 1 oid1 demo_world)))
       = [FindApp 1, GitCheckout ''/apps/demo'' ''main'' True]
   \<and> map_option head (repos (snd (revert_version demo_env 1 oid1 demo_world)) ''/apps/demo'')
       = Some (OnBranch ''main'')
   \<and> map_option (\<lambda>r. branches r ''main'')
        (repos (snd (revert_version demo_env 1 oid1 demo_world)) ''/apps/demo'')
       = map_option (\<lambda>r. Some (c_oid (hd (commits r))))
           (repos (snd (revert_version demo_env 1 oid1 demo_world)) ''/apps/demo'')
   \<and> map_option (\<lambda>r. c_message (hd (commits r)))
        (repos (snd (revert_version demo_env 1 oid1 demo_world)) ''/apps/demo'')
       = Some (''Reverted all changes back to version 9fceb02d0ae598e95dc970b74767f19372d61af8''
               @ [CHR 0x0A])
   \<and> fst (db_findApp demo_env 3 demo_world) = Inr (Some \<lparr>app_id = 3, app_path = ''broken''\<rparr>)
   \<and> fst (git_checkout demo_env ''/apps/broken'' ''main'' (snd (db_findApp demo_env 3 demo_world)))
       = Inl (Error ''Could not find git repository in /apps/broken'')
   \<and> fst (revert_version demo_env 3 oid1 demo_world)
       = Inl (Error ''Failed to revert version: Could not find git repository in /apps/broken'')
   \<and> calls (snd (revert_version demo_env 3 oid1 demo_world))
       = [FindApp 3, GitCheckout ''/apps/broken'' ''main'' True]"
proof -
  define w' where "w' = snd (revert_version demo_env 1 oid1 demo_world)"
  define w3 where "w3 = snd (revert_version demo_env 3 oid1 demo_world)"
  define v1 where "v1 = snd (db_findApp demo_env 1 demo_world)"
  define v3 where "v3 = snd (db_findApp demo_env 3 demo_world)"
  define wc where "wc = snd (git_checkout demo_env ''/apps/broken'' ''main'' v3)"
  have fa1: "fst (db_findApp demo_env 1 demo_world) = Inr (Some \<lparr>app_id = 1, app_path = ''demo''\<rparr>)"
    by code_simp
  have a1: "db_findApp demo_env 1 demo_world = (Inr (Some \<lparr>app_id = 1, app_path = ''demo''\<rparr>), v1)"
    by (simp add: prod_eq_iff fa1 v1_def)
  have p1: "''/apps/demo'' = getDyadAppPath demo_env (app_path \<lparr>app_id = 1, app_path = ''demo''\<rparr>)"
    by code_simp
  have fa3: "fst (db_findApp demo_env 3 demo_world) = Inr (Some \<lparr>app_id = 3, app_path = ''broken''\<rparr>)"
    by code_simp
  have a3: "db_findApp demo_env 3 demo_world = (Inr (Some \<lparr>app_id = 3, app_path = ''broken''\<rparr>), v3)"
    by (simp add: prod_eq_iff fa3 v3_def)
  have p3: "''/apps/broken'' = getDyadAppPath demo_env (app_path \<lparr>app_id = 3, app_path = ''broken''\<rparr>)"
    by code_simp
  have c0: "calls demo_world = []" by code_simp
  have f1: "fst (revert_version demo_env 1 oid1 demo_world) = Inr \<lparr>success = True\<rparr>"
    by code_simp
  have r1: "revert_version demo_env 1 oid1 demo_world = (Inr \<lparr>success = True\<rparr>, w')"
    by (simp add: prod_eq_iff f1 w'_def)
  have fc: "fst (git_checkout demo_env ''/apps/broken'' ''main'' v3)
       = Inl (Error ''Could not find git repository in /apps/broken'')"
    unfolding v3_def by code_simp
  have c3: "git_checkout demo_env ''/apps/broken'' ''main'' v3
       = (Inl (Error ''Could not find git repository in /apps/broken''), wc)"
    by (simp add: prod_eq_iff fc wc_def)
  have r3: "revert_version demo_env 3 oid1 demo_world
       = (fst (revert_version demo_env 3 oid1 demo_world), w3)"
    by (simp add: w3_def)
  have nm: "normalizeNewlines (''Reverted all changes back to version '' @ oid1)
      = ''Reverted all changes back to version 9fceb02d0ae598e95dc970b74767f19372d61af8''
          @ [CHR 0x0A]"
    by code_simp
  note T1 = revert_begins_with_checkout_main [OF a1 p1 r1]
  note T3 = revert_begins_with_checkout_main [OF a3 p3 r3]
  from T1 [THEN conjunct1] c0
  have k1: "take 2 (calls w') = [FindApp 1, GitCheckout ''/apps/demo'' ''main'' True]" by auto
  from T1 [THEN conjunct2, THEN conjunct2, THEN spec, THEN mp, OF refl]
  obtain r :: repo and r' :: repo and c :: commit
    where "repos w' ''/apps/demo'' = Some r'" and "head r' = OnBranch ''main''"
    and "commits r' = c # commits r" and "branches r' = (branches r)(''main'' \<mapsto> c_oid c)"
    and "c_message c = normalizeNewlines (''Reverted all changes back to version '' @ oid1)"
    by blast
  then have k2: "map_option head (repos w' ''/apps/demo'') = Some (OnBranch ''main'')"
    and k3: "map_option (\<lambda>r. branches r ''main'') (repos w' ''/apps/demo'')
       = map_option (\<lambda>r. Some (c_oid (hd (commits r)))) (repos w' ''/apps/demo'')"
    and k30: "map_option (\<lambda>r. c_message (hd (commits r))) (repos w' ''/apps/demo'')
       = Some (normalizeNewlines (''Reverted all changes back to version '' @ oid1))"
    by simp_all
  have k3': "map_option (\<lambda>r. c_message (hd (commits r))) (repos w' ''/apps/demo'')
       = Some (''Reverted all changes back to version 9fceb02d0ae598e95dc970b74767f19372d61af8''
               @ [CHR 0x0A])"
    by (simp only: k30 nm)
  from T3 [THEN conjunct2, THEN conjunct1, THEN spec, THEN spec, THEN mp, OF c3] c0
  have k4: "fst (revert_version demo_env 3 oid1 demo_world)
       = Inl (Error ''Failed to revert version: Could not find git repository in /apps/broken'')"
    and k5: "calls w3 = [FindApp 3, GitCheckout ''/apps/broken'' ''main'' True]"
    by simp_all
  from fa1 c0 f1 k1 k2 k3 k3' fa3 fc k4 k5 show ?thesis
    unfolding w'_def w3_def v3_def by (intro conjI)
qed




subsection \<open>Checking out\<close>

text \<open>
  Claim C8, as the code has it. Whatever its outcome, \<^verbatim>\<open>checkout-version\<close> leaves the table
  of messages as it was and leaves the commits of every history store as they were: no
  snapshot is created and none is removed. After the lookup of the app, the one call it
  makes is the forced checkout of the target. When it succeeds, \<^verbatim>\<open>HEAD\<close> and the index of
  the store are those of the target and every file of the target snapshot is on disk with
  the snapshot's content. A listing of the versions made after it is empty or lists
  commits that the store had before it; it is read from the new \<^verbatim>\<open>HEAD\<close>, so it need not
  have the length of a listing made before.
\<close>

theorem checkout_keeps_every_snapshot:
  assumes "checkout_version E appId versionId w = (res, w')"
  shows "messages w' = messages w
       \<and> (\<forall>d. map_option commits (repos w' d) = map_option commits (repos w d))
       \<and> (calls w' = calls w @ [FindApp appId]
            \<or> (\<exists>d. calls w' = calls w @ [FindApp appId, GitCheckout d versionId True]))
       \<and> (\<forall>ok. res = Inr ok \<longrightarrow>
            ok = \<lparr>success = True\<rparr>
          \<and> (\<exists>app w0 r h c. db_findApp E appId w = (Inr (Some app), w0)
                \<and> repos w (getDyadAppPath E (app_path app)) = Some r
                \<and> resolve_ref r versionId = Some (h, c)
                \<and> repos w' (getDyadAppPath E (app_path app))
                     = Some (r\<lparr>head := h, index := c_tree c\<rparr>)
                \<and> (\<forall>q b. map_of (c_tree c) q = Some b \<longrightarrow>
                      map_of (files w') (path_join (getDyadAppPath E (app_path app)) q) = Some b)))
       \<and> (\<forall>vs w''. list_versions E appId w' = (Inr vs, w'') \<longrightarrow>
            vs = []
          \<or> (\<exists>app w0 r cs. db_findApp E appId w = (Inr (Some app), w0)
                \<and> repos w (getDyadAppPath E (app_path app)) = Some r
                \<and> set cs \<subseteq> set (commits r) \<and> vs = map to_version cs))"
proof -
  obtain r0 w0 where l: "db_findApp E appId w = (r0, w0)" by (cases "db_findApp E appId w")
  note fr = db_findApp_frame [OF l]
  have main: "apps w' = apps w
       \<and> messages w' = messages w
       \<and> (\<forall>d. map_option commits (repos w' d) = map_option commits (repos w d))
       \<and> (calls w' = calls w @ [FindApp appId]
            \<or> (\<exists>d. calls w' = calls w @ [FindApp appId, GitCheckout d versionId True]))
       \<and> (\<forall>ok. res = Inr ok \<longrightarrow>
            ok = \<lparr>success = True\<rparr>
          \<and> (\<exists>app w0 r h c. db_findApp E appId w = (Inr (Some app), w0)
                \<and> repos w (getDyadAppPath E (app_path app)) = Some r
                \<and> resolve_ref r versionId = Some (h, c)
                \<and> repos w' (getDyadAppPath E (app_path app))
                     = Some (r\<lparr>head := h, index := c_tree c\<rparr>)
                \<and> (\<forall>q b. map_of (c_tree c) q = Some b \<longrightarrow>
                      map_of (files w') (path_join (getDyadAppPath E (app_path app)) q) = Some b)))"
  proof (cases r0)
    case (Inl cause)
    with l assms have "res = Inl cause" and "w' = w0"
      by (simp_all add: checkout_version_lookup_fails)
    with fr show ?thesis by simp
  next
    case (Inr found)
    show ?thesis
    proof (cases found)
      case None
      with l Inr assms have "res = Inl (Error ''App not found'')" and "w' = w0"
        by (simp_all add: checkout_version_unknown)
      with fr show ?thesis by simp
    next
      case (Some app)
      with l Inr have k: "db_findApp E appId w = (Inr (Some app), w0)" by simp
      define d where "d = getDyadAppPath E (app_path app)"
      obtain r1 w1 where g: "git_checkout E d versionId w0 = (r1, w1)"
        by (cases "git_checkout E d versionId w0")
      note gf = git_checkout_frame [OF g]
      note cl = git_checkout_calls [OF g]
      from assms g have w': "messages w' = messages w1 \<and> repos w' = repos w1
          \<and> calls w' = calls w1 \<and> files w' = files w1 \<and> apps w' = apps w1"
        unfolding checkout_version_known [OF k] d_def [symmetric]
        by (auto split: sum.splits)
      have a: "apps w' = apps w" using w' gf fr by simp
      have m: "messages w' = messages w" using w' gf fr by simp
      have c: "\<forall>d. map_option commits (repos w' d) = map_option commits (repos w d)"
        using w' gf fr by simp
      have "calls w' = calls w @ [FindApp appId, GitCheckout d versionId True]"
        using w' cl fr by simp
      then have n: "calls w' = calls w @ [FindApp appId]
            \<or> (\<exists>d. calls w' = calls w @ [FindApp appId, GitCheckout d versionId True])"
        by blast
      have s: "\<forall>ok. res = Inr ok \<longrightarrow>
            ok = \<lparr>success = True\<rparr>
          \<and> (\<exists>app w0 r h c. db_findApp E appId w = (Inr (Some app), w0)
                \<and> repos w (getDyadAppPath E (app_path app)) = Some r
                \<and> resolve_ref r versionId = Some (h, c)
                \<and> repos w' (getDyadAppPath E (app_path app))
                     = Some (r\<lparr>head := h, index := c_tree c\<rparr>)
                \<and> (\<forall>q b. map_of (c_tree c) q = Some b \<longrightarrow>
                      map_of (files w') (path_join (getDyadAppPath E (app_path app)) q) = Some b))"
      proof (intro allI impI)
        fix ok
        assume ok: "res = Inr ok"
        with assms g have r1: "r1 = Inr ()" and o: "ok = \<lparr>success = True\<rparr>"
          unfolding checkout_version_known [OF k] d_def [symmetric]
          by (auto split: sum.splits)
        from g r1 have "git_checkout E d versionId w0 = (Inr (), w1)" by simp
        from git_checkout_Inr [OF this] obtain r h c where
          r: "repos w0 d = Some r" and rr: "resolve_ref r versionId = Some (h, c)" and
          w1: "w1 = w0\<lparr>calls := calls w0 @ [GitCheckout d versionId True],
                      files := checkout_files d (index r) (c_tree c) (files w0),
                      dirs := dirs w0 \<union> checkout_dirs d (c_tree c),
                      repos := (repos w0)(d \<mapsto> r\<lparr>head := h, index := c_tree c\<rparr>)\<rparr>"
          by blast
        from r fr have r': "repos w d = Some r" by simp
        have rep: "repos w' d = Some (r\<lparr>head := h, index := c_tree c\<rparr>)"
          using w' w1 by simp
        have fl: "\<forall>q b. map_of (c_tree c) q = Some b \<longrightarrow>
                          map_of (files w') (path_join d q) = Some b"
          using w' w1 by (simp add: map_of_checkout_files)
        from k r' rr rep fl o
        show "ok = \<lparr>success = True\<rparr>
          \<and> (\<exists>app w0 r h c. db_findApp E appId w = (Inr (Some app), w0)
                \<and> repos w (getDyadAppPath E (app_path app)) = Some r
                \<and> resolve_ref r versionId = Some (h, c)
                \<and> repos w' (getDyadAppPath E (app_path app))
                     = Some (r\<lparr>head := h, index := c_tree c\<rparr>)
                \<and> (\<forall>q b. map_of (c_tree c) q = Some b \<longrightarrow>
                      map_of (files w') (path_join (getDyadAppPath E (app_path app)) q) = Some b))"
          unfolding d_def by blast
      qed
      show ?thesis by (intro conjI a m c n s)
    qed
  qed
  note a = main [THEN conjunct1]
  note m = main [THEN conjunct2, THEN conjunct1]
  note c = main [THEN conjunct2, THEN conjunct2, THEN conjunct1]
  note n = main [THEN conjunct2, THEN conjunct2, THEN conjunct2, THEN conjunct1]
  note s = main [THEN conjunct2, THEN conjunct2, THEN conjunct2, THEN conjunct2]
  have listing: "\<forall>vs w''. list_versions E appId w' = (Inr vs, w'') \<longrightarrow>
            vs = []
          \<or> (\<exists>app w0 r cs. db_findApp E appId w = (Inr (Some app), w0)
                \<and> repos w (getDyadAppPath E (app_path app)) = Some r
                \<and> set cs \<subseteq> set (commits r) \<and> vs = map to_version cs)"
  proof (intro allI impI)
    fix vs w''
    assume lv: "list_versions E appId w' = (Inr vs, w'')"
    from list_versions_Inr [OF lv] obtain app :: app and v0 :: world where
      k': "db_findApp E appId w' = (Inr (Some app), v0)" and
      alt: "vs = [] \<or> (\<exists>r cs. repos w' (getDyadAppPath E (app_path app)) = Some r
                            \<and> set cs \<subseteq> set (commits r) \<and> vs = map to_version cs)"
      by blast
    note k = db_findApp_same_apps [OF a k']
    show "vs = []
          \<or> (\<exists>app w0 r cs. db_findApp E appId w = (Inr (Some app), w0)
                \<and> repos w (getDyadAppPath E (app_path app)) = Some r
                \<and> set cs \<subseteq> set (commits r) \<and> vs = map to_version cs)"
    proof (cases "vs = []")
      case True
      then show ?thesis by simp
    next
      case False
      with alt obtain r' :: repo and cs where
        r': "repos w' (getDyadAppPath E (app_path app)) = Some r'" and
        sub: "set cs \<subseteq> set (commits r')" and v: "vs = map to_version cs"
        by blast
      have "map_option commits (repos w' (getDyadAppPath E (app_path app)))
          = map_option commits (repos w (getDyadAppPath E (app_path app)))"
        by (rule c [THEN spec])
      with r' obtain r :: repo where
        r: "repos w (getDyadAppPath E (app_path app)) = Some r" and "commits r = commits r'"
        by (cases "repos w (getDyadAppPath E (app_path app))") auto
      with sub have "set cs \<subseteq> set (commits r)" by simp
      with k r v show ?thesis by blast
    qed
  qed
  show ?thesis by (intro conjI m c n s listing)
qed

theorem checkout_keeps_every_snapshot_witness:
  "fst (checkout_version demo_env 1 oid1 demo_world) = Inr \<lparr>success = True\<rparr>
   \<and> messages (snd (checkout_version demo_env 1 oid1 demo_world)) = messages demo_world
   \<and> map_option commits (repos (snd (checkout_version demo_env 1 oid1 demo_world)) ''/apps/demo'')
       = Some [demo_c2, demo_c1]
   \<and> map_option head (repos (snd (checkout_version demo_env 1 oid1 demo_world)) ''/apps/demo'')
       = Some (Detached oid1)
   \<and> map_of (files (snd (checkout_version demo_env 1 oid1 demo_world))) ''/apps/demo/src/b.txt''
       = Some ''b''
   \<and> fst (list_versions demo_env 1 (snd (checkout_version demo_env 1 oid1 demo_world)))
       = Inr [to_version demo_c1]
   \<and> (\<exists>cs. set cs \<subseteq> {demo_c2, demo_c1} \<and> [to_version demo_c1] = map to_version cs)"
proof -
  define w' where "w' = snd (checkout_version demo_env 1 oid1 demo_world)"
  define w'' where "w'' = snd (list_versions demo_env 1 w')"
  have f: "fst (checkout_version demo_env 1 oid1 demo_world) = Inr \<lparr>success = True\<rparr>"
    by code_simp
  have r: "checkout_version demo_env 1 oid1 demo_world = (Inr \<lparr>success = True\<rparr>, w')"
    by (simp add: prod_eq_iff f w'_def)
  note T = checkout_keeps_every_snapshot [OF r]
  have fa: "fst (db_findApp demo_env 1 demo_world) = Inr (Some \<lparr>app_id = 1, app_path = ''demo''\<rparr>)"
    by code_simp
  have p: "getDyadAppPath demo_env ''demo'' = ''/apps/demo''" by code_simp
  have rp: "repos demo_world ''/apps/demo'' = Some demo_repo"
    by (simp add: demo_world_def)
  have rr: "resolve_ref demo_repo oid1 = Some (Detached oid1, demo_c1)"
    by code_simp
  have cm: "commits demo_repo = [demo_c2, demo_c1]" by (simp add: demo_repo_def)
  have tr: "map_of (c_tree demo_c1) ''src/b.txt'' = Some ''b''" by code_simp
  have jb: "path_join ''/apps/demo'' ''src/b.txt'' = ''/apps/demo/src/b.txt''"
    by (simp add: path_join_def)
  have fl: "fst (list_versions demo_env 1 w') = Inr [to_version demo_c1]"
    unfolding w'_def by code_simp
  have lv: "list_versions demo_env 1 w' = (Inr [to_version demo_c1], w'')"
    by (simp add: prod_eq_iff fl w''_def)
  have ne: "[to_version demo_c1] \<noteq> []" by simp
  from T [THEN conjunct1] have k1: "messages w' = messages demo_world" .
  from T [THEN conjunct2, THEN conjunct1, THEN spec, of "''/apps/demo''"]
  have k2: "map_option commits (repos w' ''/apps/demo'') = Some [demo_c2, demo_c1]"
    by (simp add: rp cm)
  from T [THEN conjunct2, THEN conjunct2, THEN conjunct2, THEN conjunct1, THEN spec, THEN mp,
      OF refl, THEN conjunct2]
  obtain app :: app and w0 :: world and h :: head_ref and c :: commit and r0 :: repo where
    x0: "db_findApp demo_env 1 demo_world = (Inr (Some app), w0)" and
    x4: "repos demo_world (getDyadAppPath demo_env (app_path app)) = Some r0" and
    x1: "resolve_ref r0 oid1 = Some (h, c)" and
    x2: "repos w' (getDyadAppPath demo_env (app_path app))
           = Some (r0\<lparr>head := h, index := c_tree c\<rparr>)" and
    x3: "\<forall>q b. map_of (c_tree c) q = Some b \<longrightarrow>
           map_of (files w') (path_join (getDyadAppPath demo_env (app_path app)) q) = Some b"
    by blast
  from x0 fa have ap: "app = \<lparr>app_id = 1, app_path = ''demo''\<rparr>" by simp
  have dd: "getDyadAppPath demo_env (app_path app) = ''/apps/demo''"
    unfolding ap by (simp add: p)
  from x4 rp have r0: "r0 = demo_repo" unfolding dd by simp
  from x1 rr have hc: "h = Detached oid1" "c = demo_c1" unfolding r0 by simp_all
  from x2 hc have k3: "map_option head (repos w' ''/apps/demo'') = Some (Detached oid1)"
    unfolding dd by simp
  from x3 hc tr have k4: "map_of (files w') ''/apps/demo/src/b.txt'' = Some ''b''"
    unfolding dd by (simp add: jb [symmetric])
  from T [THEN conjunct2, THEN conjunct2, THEN conjunct2, THEN conjunct2, THEN spec, THEN spec,
      THEN mp, OF lv]
  have "\<exists>app w0 r cs. db_findApp demo_env 1 demo_world = (Inr (Some app), w0)
      \<and> repos demo_world (getDyadAppPath demo_env (app_path app)) = Some r
      \<and> set cs \<subseteq> set (commits r) \<and> [to_version demo_c1] = map to_version cs"
    by (rule disjE) (simp, assumption)
  then have k5: "\<exists>cs. set cs \<subseteq> {demo_c2, demo_c1} \<and> [to_version demo_c1] = map to_version cs"
  proof (elim exE conjE)
    fix app' :: app and v0 :: world and r' :: repo and cs :: "commit list"
    assume y0: "db_findApp demo_env 1 demo_world = (Inr (Some app'), v0)"
      and y1: "repos demo_world (getDyadAppPath demo_env (app_path app')) = Some r'"
      and y2: "set cs \<subseteq> set (commits r')"
      and y3: "[to_version demo_c1] = map to_version cs"
    from y0 fa have ap': "app' = \<lparr>app_id = 1, app_path = ''demo''\<rparr>" by simp
    have dd': "getDyadAppPath demo_env (app_path app') = ''/apps/demo''"
      unfolding ap' by (simp add: p)
    from y1 rp have "r' = demo_repo" unfolding dd' by simp
    with y2 cm have y4: "set cs \<subseteq> {demo_c2, demo_c1}" by simp
    show ?thesis by (rule exI [of _ cs], rule conjI [OF y4 y3])
  qed
  from f k1 k2 k3 k4 fl k5 show ?thesis unfolding w'_def by (intro conjI)
qed

text \<open>
  Against claim C8 as stated: the store of the app \<^verbatim>\<open>demo\<close> has two commits and \<^verbatim>\<open>HEAD\<close> on
  main, so a listing has two versions. After a checkout of the first commit, which
  succeeds, a listing has one version: the length of the history has changed.
\<close>

theorem checkout_changes_listed_history:
  "map_sum id (map oid) (fst (list_versions demo_env 1 demo_world)) = Inr [oid2, oid1]
   \<and> map_sum id length (fst (list_versions demo_env 1 demo_world)) = Inr 2
   \<and> fst (checkout_version demo_env 1 oid1 demo_world) = Inr \<lparr>success = True\<rparr>
   \<and> map_sum id (map oid)
        (fst (list_versions demo_env 1 (snd (checkout_version demo_env 1 oid1 demo_world))))
       = Inr [oid1]
   \<and> map_sum id length
        (fst (list_versions demo_env 1 (snd (checkout_version demo_env 1 oid1 demo_world))))
       = Inr 1"
  by code_simp

end
